theory Spec2Isabelle
  imports Main "HOL-Library.Word"
begin

text \<open>
  A model of the remote tail program: the readers \<open>HttpTailer\<close> and \<open>SftpTailer\<close>
  (\<^verbatim>\<open>src/tailer_http.go\<close>, lines 13-107 and 121-239) and the checkpoint store,
  \<open>CreateTailerFromArgs\<close> and \<open>main\<close> built on \<open>TailerBase\<close>
  (\<^verbatim>\<open>src/httptail_main.go\<close>, lines 198-306). The earlier single-reader versions of
  the program kept in the same files are not modelled. The network, the SFTP server and
  the file system are parameters of the functions that use them.
\<close>

section \<open>Machine integers and byte strings\<close>

text \<open>
  Go's \<open>int64\<close> is a 64-bit word read in two's complement: \<open>+\<close> wraps around, and the
  source's comparisons are the signed ones (\<open><s\<close>, \<open>\<le>s\<close>). Go's \<open>int\<close> is taken
  to be 64 bits wide, so the conversions \<open>int64(n)\<close> and \<open>int(n)\<close> lose nothing on the
  values that occur. Byte slices and Go strings are \<open>char list\<close> (8-bit characters).
\<close>

type_synonym int64 = "64 word"

definition nlByte :: string where
  "nlByte = [CHR 0x0A]"

text \<open>\<open>bytes.Index(s, sep)\<close>: the index of the first instance of \<open>sep\<close> in \<open>s\<close>, or -1.\<close>

fun bytes_Index :: "string \<Rightarrow> string \<Rightarrow> int" where
  "bytes_Index [] sep = (if sep = [] then 0 else -1)"
| "bytes_Index (c # cs) sep =
     (if take (length sep) (c # cs) = sep then 0
      else (let r = bytes_Index cs sep in if r = -1 then -1 else r + 1))"

lemma bytes_Index_nl:
  "bytes_Index body nlByte =
     (if CHR 0x0A \<in> set body then int (length (takeWhile (\<lambda>c. c \<noteq> CHR 0x0A) body)) else -1)"
  by (induction body) (auto simp: nlByte_def Let_def)

lemma bytes_Index_nl_bounds:
  "bytes_Index body nlByte \<noteq> -1 \<Longrightarrow> 0 \<le> bytes_Index body nlByte \<and> body \<noteq> []"
  by (auto simp: bytes_Index_nl split: if_splits)

section \<open>Line extraction loop\<close>

text \<open>
  The loop shared by \<open>HttpTailer.FetchNewLines\<close> and \<open>SftpTailer.FetchNewLines\<close>:
  \<^verbatim>\<open>
  nlIndex := bytes.Index(body, nlByte)
  for nlIndex != -1 {
      lines = append(lines, string(body[0:nlIndex]))
      t.lastOffset += int64(nlIndex + len(nlByte))
      body = body[nlIndex+len(nlByte):]
      nlIndex = bytes.Index(body, nlByte)
  }
  \<close>
  The state of the loop is the remaining body, the lines collected so far and
  \<open>t.lastOffset\<close>.
\<close>

function extract_loop :: "string \<Rightarrow> string list \<Rightarrow> int64 \<Rightarrow> string list \<times> int64" where
  "extract_loop body lines off =
     (let nlIndex = bytes_Index body nlByte in
      if nlIndex \<noteq> -1
      then extract_loop (drop (nat (nlIndex + int (length nlByte))) body)
             (lines @ [take (nat nlIndex) body])
             (off + word_of_int (nlIndex + int (length nlByte)))
      else (lines, off))"
  by pat_completeness auto
termination
proof (relation "measure (\<lambda>(body, lines, off). length body)")
  show "wf (measure (\<lambda>(body, lines, off). length body))" by simp
next
  fix body :: string and lines :: "string list" and off :: int64 and x :: int
  assume "x = bytes_Index body nlByte" and "x \<noteq> -1"
  then have "0 \<le> x" and "body \<noteq> []"
    using bytes_Index_nl_bounds [of body] by auto
  then show "((drop (nat (x + int (length nlByte))) body, lines @ [take (nat x) body],
               off + word_of_int (x + int (length nlByte))), body, lines, off)
             \<in> measure (\<lambda>(body, lines, off). length body)"
    by (cases body) (auto simp: nlByte_def)
qed

declare extract_loop.simps [simp del]

text \<open>The bytes of a sequence of complete lines, each followed by its newline.\<close>

definition terminated :: "string list \<Rightarrow> string" where
  "terminated ls = concat (map (\<lambda>l. l @ nlByte) ls)"

section \<open>The readers\<close>

text \<open>
  What the program writes to standard error, one constructor per message of the source.
\<close>

datatype diagnostic =
    MsgHttpTruncated \<comment> \<open>"Server returned 206, file was probably truncated. Resetting state."\<close>
  | MsgRangeNotSupported \<comment> \<open>"Server doesn't support range requests."\<close>
  | MsgEmptyResponse \<comment> \<open>"Empty response."\<close>
  | MsgFileTruncated \<comment> \<open>"File truncated. Resetting state."\<close>
  | MsgFlagError \<comment> \<open>the error \<open>flag.Parse\<close> reports for a flag it cannot parse\<close>
  | MsgFlagUsage \<comment> \<open>the usage text \<open>flag.Parse\<close> prints itself\<close>
  | MsgUsage
  | MsgFailedToCreateTailer
  | MsgFailedToLoadState
  | MsgErrorFetchingFile
  | MsgFailedToSaveState

text \<open>The errors \<open>FetchNewLines\<close> returns, one constructor per \<open>return nil, err\<close>.\<close>

datatype fetch_error =
    NewRequestError
  | ClientDoError
  | UnexpectedHttpStatus int
  | Expected200Got206
  | BodyReadError
  | FailedToConnect
  | FailedToOpen
  | FailedToStat
  | FailedToSeek int64
  | FailedToRead int64

record TailerBase =
  stateFilePath :: string
  lastOffset :: int64

subsection \<open>HTTP\<close>

record HttpTailer = TailerBase +
  url :: string
  requestTimeoutSec :: int
  rangeNotSupported :: bool

definition NewHttpTailer :: "string \<Rightarrow> int \<Rightarrow> string \<Rightarrow> HttpTailer" where
  "NewHttpTailer u timeout path =
     \<lparr>stateFilePath = path, lastOffset = 0,
      url = u, requestTimeoutSec = timeout, rangeNotSupported = False\<rparr>"

text \<open>
  The network is a parameter of one call: whether building the request fails, and what
  \<open>client.Do\<close> answers to a request with the given \<open>Range\<close> start (\<open>None\<close>: no
  \<open>Range\<close> header). The answer is an error (\<open>None\<close>) or a response with its status
  code and what \<open>io.ReadAll(resp.Body)\<close> yields (\<open>None\<close>: a read error).
\<close>

record http_response =
  StatusCode :: int
  Body :: "string option"

record http_env =
  NewRequestFails :: bool
  Do :: "int64 option \<Rightarrow> http_response option"

text \<open>
  \<open>HttpTailer.FetchNewLines\<close> (\<^verbatim>\<open>src/tailer_http.go\<close>, lines 35-107). The result
  is the returned pair (an error, or the lines: a nil slice and an empty slice both are
  \<open>[]\<close>), the messages written to standard error, and the reader after the call.
\<close>

definition HttpFetchNewLines ::
  "http_env \<Rightarrow> HttpTailer \<Rightarrow> (fetch_error + string list) \<times> diagnostic list \<times> HttpTailer" where
  "HttpFetchNewLines env t =
     (if NewRequestFails env then (Inl NewRequestError, [], t)
      else case Do env (if 0 <s lastOffset t then Some (lastOffset t - 1) else None) of
        None \<Rightarrow> (Inl ClientDoError, [], t)
      | Some resp \<Rightarrow>
          if StatusCode resp = 416
          then (Inr [], [MsgHttpTruncated], t\<lparr>lastOffset := 0\<rparr>)
          else if StatusCode resp \<noteq> 200 \<and> StatusCode resp \<noteq> 206
          then (Inl (UnexpectedHttpStatus (StatusCode resp)), [], t)
          else if \<not> 0 <s lastOffset t \<and> StatusCode resp = 206
          then (Inl Expected200Got206, [], t)
          else
            let (skipBytes, warn, t1) =
                  (if 0 <s lastOffset t
                   then (if StatusCode resp = 206 then (1, [], t)
                         else (lastOffset t,
                               if \<not> rangeNotSupported t then [MsgRangeNotSupported] else [],
                               t\<lparr>rangeNotSupported := True\<rparr>))
                   else (0, [], t))
            in (case Body resp of
                  None \<Rightarrow> (Inl BodyReadError, warn, t1)
                | Some body \<Rightarrow>
                    if length body = 0 then (Inr [], warn @ [MsgEmptyResponse], t1)
                    else if int (length body) \<le> sint skipBytes then (Inr [], warn, t1)
                    else
                      let (lines, off) =
                            extract_loop (drop (nat (sint skipBytes)) body) [] (lastOffset t1)
                      in (Inr lines, warn, t1\<lparr>lastOffset := off\<rparr>)))"

subsection \<open>SFTP\<close>

record SftpTailer = TailerBase +
  requestTimeoutSec :: int
  address :: string
  username :: string
  password :: string
  filePath :: string
  client :: bool \<comment> \<open>\<open>t.client != nil\<close>\<close>
  sshClient :: bool \<comment> \<open>\<open>t.sshClient != nil\<close>\<close>

definition NewSftpTailer ::
  "string \<Rightarrow> string \<Rightarrow> string \<Rightarrow> string \<Rightarrow> int \<Rightarrow> string \<Rightarrow> SftpTailer" where
  "NewSftpTailer addr user pass file timeout path =
     \<lparr>stateFilePath = path, lastOffset = 0,
      requestTimeoutSec = timeout, address = addr, username = user, password = pass,
      filePath = file, client = False, sshClient = False\<rparr>"

text \<open>
  The server is a parameter of one call: whether \<open>ssh.Dial\<close>, \<open>sftp.NewClient\<close> and
  \<open>client.Open\<close> succeed, what \<open>file.Stat\<close> reports as size (\<open>None\<close>: an error),
  whether \<open>file.Seek\<close> to a position succeeds, and what \<open>io.ReadAll\<close> yields after a
  seek to that position (\<open>None\<close>: a read error).
\<close>

record sftp_env =
  DialOk :: bool
  NewClientOk :: bool
  OpenOk :: bool
  StatSize :: "int64 option"
  SeekOk :: "int64 \<Rightarrow> bool"
  ReadAll :: "int64 \<Rightarrow> string option"

text \<open>
  \<open>connect\<close>, \<open>disconnect\<close> and \<open>SftpTailer.FetchNewLines\<close>
  (\<^verbatim>\<open>src/tailer_http.go\<close>, lines 147-239).
\<close>

definition connect :: "sftp_env \<Rightarrow> SftpTailer \<Rightarrow> bool \<times> SftpTailer" where
  "connect env t =
     (if \<not> DialOk env then (False, t)
      else if \<not> NewClientOk env then (False, t)
      else (True, t\<lparr>sshClient := True, client := True\<rparr>))"

definition disconnect :: "SftpTailer \<Rightarrow> SftpTailer" where
  "disconnect t = t\<lparr>client := False, sshClient := False\<rparr>"

definition SftpFetchNewLines ::
  "sftp_env \<Rightarrow> SftpTailer \<Rightarrow> (fetch_error + string list) \<times> diagnostic list \<times> SftpTailer" where
  "SftpFetchNewLines env t =
     (let (ok, t1) = (if \<not> client t then connect env t else (True, t)) in
      if \<not> ok then (Inl FailedToConnect, [], t1)
      else if \<not> OpenOk env then (Inl FailedToOpen, [], disconnect t1)
      else case StatSize env of
        None \<Rightarrow> (Inl FailedToStat, [], disconnect t1)
      | Some sz \<Rightarrow>
          let (warn, t2) =
                (if sz <s lastOffset t1
                 then ([MsgFileTruncated], t1\<lparr>lastOffset := 0\<rparr>)
                 else ([], t1))
          in if sz = lastOffset t2 then (Inr [], warn, t2)
             else if \<not> SeekOk env (lastOffset t2)
             then (Inl (FailedToSeek (lastOffset t2)), warn, disconnect t2)
             else (case ReadAll env (lastOffset t2) of
                     None \<Rightarrow> (Inl (FailedToRead (lastOffset t2)), warn, disconnect t2)
                   | Some body \<Rightarrow>
                       let (lines, off) = extract_loop body [] (lastOffset t2)
                       in (Inr lines, warn, t2\<lparr>lastOffset := off\<rparr>)))"


section \<open>The checkpoint store\<close>

subsection \<open>The file system\<close>

text \<open>
  The files \<open>os.ReadFile\<close> and \<open>os.WriteFile\<close> see: the content of each path
  (\<open>None\<close>: no such file), and the paths on which reading or writing fails for another
  reason (permissions, a directory). A failed write is taken to leave the file as it was.
\<close>

record fsys =
  files :: "string \<Rightarrow> string option"
  readFails :: "string \<Rightarrow> bool"
  writeFails :: "string \<Rightarrow> bool"

datatype read_error = ErrNotExist | ErrOtherRead

datatype write_error = ErrWrite

definition ReadFile :: "fsys \<Rightarrow> string \<Rightarrow> read_error + string" where
  "ReadFile fs path =
     (if readFails fs path then Inl ErrOtherRead
      else case files fs path of None \<Rightarrow> Inl ErrNotExist | Some data \<Rightarrow> Inr data)"

definition WriteFile :: "fsys \<Rightarrow> string \<Rightarrow> string \<Rightarrow> write_error option \<times> fsys" where
  "WriteFile fs path data =
     (if writeFails fs path then (Some ErrWrite, fs)
      else (None, fs\<lparr>files := (files fs)(path \<mapsto> data)\<rparr>))"

subsection \<open>\<open>fmt.Sprintf("%d\n", n)\<close>\<close>

definition digit_char :: "nat \<Rightarrow> char" where
  "digit_char d = ''0123456789'' ! d"

fun decimal :: "nat \<Rightarrow> string" where
  "decimal n = (if n < 10 then [digit_char n] else decimal (n div 10) @ [digit_char (n mod 10)])"

declare decimal.simps [simp del]

definition Sprintf_d :: "int64 \<Rightarrow> string" where
  "Sprintf_d n = (if sint n < 0 then CHR ''-'' # decimal (nat (- sint n)) else decimal (nat (sint n)))"

subsection \<open>\<open>fmt.Sscanf(data, "%d", &lastOffset)\<close>\<close>

text \<open>
  The scanner of Go's \<open>fmt\<close> package reads the input rune by rune. \<open>DecodeRune\<close> is
  \<open>utf8.DecodeRune\<close>: the rune at the front of a byte string and its width in bytes, the
  error rune \<open>U+FFFD\<close> with width 1 for an invalid or incomplete encoding.
\<close>

type_synonym rune = nat

definition RuneError :: rune where
  "RuneError = 0xFFFD"

fun DecodeRune :: "string \<Rightarrow> rune \<times> nat" where
  "DecodeRune [] = (RuneError, 0)"
| "DecodeRune (p0 # ps) =
     (let b0 = (of_char p0 :: nat) in
      if b0 < 0x80 then (b0, 1)
      else if b0 < 0xC2 \<or> 0xF4 < b0 then (RuneError, 1)
      else
        let sz = (if b0 < 0xE0 then 2 else if b0 < 0xF0 then 3 else (4::nat));
            lo = (if b0 = 0xE0 then 0xA0 else if b0 = 0xF0 then 0x90 else (0x80::nat));
            hi = (if b0 = 0xED then 0x9F else if b0 = 0xF4 then 0x8F else (0xBF::nat))
        in if length (p0 # ps) < sz then (RuneError, 1)
           else
             let b1 = (of_char (ps ! 0) :: nat) in
             if b1 < lo \<or> hi < b1 then (RuneError, 1)
             else if sz \<le> 2 then ((b0 mod 32) * 64 + b1 mod 64, 2)
             else
               let b2 = (of_char (ps ! 1) :: nat) in
               if b2 < 0x80 \<or> 0xBF < b2 then (RuneError, 1)
               else if sz \<le> 3 then ((b0 mod 16) * 4096 + (b1 mod 64) * 64 + b2 mod 64, 3)
               else
                 let b3 = (of_char (ps ! 2) :: nat) in
                 if b3 < 0x80 \<or> 0xBF < b3 then (RuneError, 1)
                 else ((b0 mod 8) * 262144 + (b1 mod 64) * 4096 + (b2 mod 64) * 64
                        + b3 mod 64, 4))"

text \<open>
  The runes of a byte string, as successive \<open>ReadRune\<close> calls deliver them. The first
  argument counts the bytes still to skip of the rune decoded last.
\<close>

fun runes_from :: "nat \<Rightarrow> string \<Rightarrow> rune list" where
  "runes_from k [] = []"
| "runes_from (Suc k) (c # cs) = runes_from k cs"
| "runes_from 0 (c # cs) = (let (r, w) = DecodeRune (c # cs) in r # runes_from (w - 1) cs)"

definition runes :: "string \<Rightarrow> rune list" where
  "runes s = runes_from 0 s"

text \<open>\<open>isSpace\<close> of \<open>fmt/scan.go\<close>, with its table of ranges.\<close>

definition space_ranges :: "(nat \<times> nat) list" where
  "space_ranges =
     [(0x0009, 0x000d), (0x0020, 0x0020), (0x0085, 0x0085), (0x00a0, 0x00a0),
      (0x1680, 0x1680), (0x2000, 0x200a), (0x2028, 0x2029), (0x202f, 0x202f),
      (0x205f, 0x205f), (0x3000, 0x3000)]"

fun in_ranges :: "(nat \<times> nat) list \<Rightarrow> nat \<Rightarrow> bool" where
  "in_ranges [] rx = False"
| "in_ranges ((lo, hi) # rngs) rx =
     (if rx < lo then False else if rx \<le> hi then True else in_ranges rngs rx)"

definition isSpace :: "rune \<Rightarrow> bool" where
  "isSpace r = (if r \<ge> 2 ^ 16 then False else in_ranges space_ranges r)"

datatype scan_error =
    UnexpectedNewline \<comment> \<open>"unexpected newline"\<close>
  | ScanEOF \<comment> \<open>\<open>io.EOF\<close> / \<open>io.ErrUnexpectedEOF\<close>: the input ended before the number\<close>
  | ExpectedInteger \<comment> \<open>"expected integer"\<close>
  | ErrSyntax \<comment> \<open>\<open>strconv.ErrSyntax\<close>\<close>
  | ErrRange \<comment> \<open>\<open>strconv.ErrRange\<close>\<close>

text \<open>\<open>hugeWid\<close>: the scanner reads at most this many runes of its input.\<close>

definition hugeWid :: nat where
  "hugeWid = 2 ^ 30"

text \<open>
  \<open>ss.SkipSpace\<close> with \<open>nlIsSpace = false\<close> (as \<open>Sscanf\<close> sets it): the input left after
  the leading spaces, or the error of a newline among them.
\<close>

fun SkipSpace :: "rune list \<Rightarrow> scan_error + rune list" where
  "SkipSpace [] = Inr []"
| "SkipSpace (r # rs) =
     (if r = 0x0D \<and> (case rs of [] \<Rightarrow> False | r' # _ \<Rightarrow> r' = 0x0A) then SkipSpace rs
      else if r = 0x0A then Inl UnexpectedNewline
      else if \<not> isSpace r then Inr (r # rs)
      else SkipSpace rs)"

text \<open>\<open>ss.accept(ok)\<close>: the rune consumed into the token buffer, if it is one of \<open>ok\<close>.\<close>

definition accept :: "string \<Rightarrow> rune list \<Rightarrow> bool \<times> rune list \<times> rune list" where
  "accept ok rs =
     (case rs of
        [] \<Rightarrow> (False, [], [])
      | r # rs' \<Rightarrow> if r \<in> set (map of_char ok) then (True, [r], rs') else (False, [], r # rs'))"

text \<open>The loop \<open>for s.accept(digits) {}\<close> of \<open>scanNumber\<close>.\<close>

fun accept_loop :: "string \<Rightarrow> rune list \<Rightarrow> rune list \<Rightarrow> rune list \<times> rune list" where
  "accept_loop ok buf [] = (buf, [])"
| "accept_loop ok buf (r # rs) =
     (if r \<in> set (map of_char ok) then accept_loop ok (buf @ [r]) rs else (buf, r # rs))"

text \<open>
  The digits \<open>getBase\<close> gives the verb \<open>%d\<close> (the underscore is a digit separator for
  \<open>%v\<close> only), and the signs.
\<close>

definition decimalDigits :: string where
  "decimalDigits = ''0123456789''"

definition sign :: string where
  "sign = ''+-''"

text \<open>
  The digit loop of \<open>strconv.ParseUint(s, 10, 64)\<close> on the token's runes: a character
  that is not a decimal digit is a syntax error, a value beyond \<open>2^64 - 1\<close> a range
  error, whichever the loop meets first.
\<close>

fun ParseUint_loop :: "rune list \<Rightarrow> nat \<Rightarrow> scan_error + nat" where
  "ParseUint_loop [] n = Inr n"
| "ParseUint_loop (c # cs) n =
     (if \<not> (48 \<le> c \<and> c \<le> 57) then Inl ErrSyntax
      else if n \<ge> (2 ^ 64 - 1) div 10 + 1 then Inl ErrRange
      else if n * 10 + (c - 48) > 2 ^ 64 - 1 then Inl ErrRange
      else ParseUint_loop cs (n * 10 + (c - 48)))"

definition ParseUint :: "rune list \<Rightarrow> scan_error + nat" where
  "ParseUint s = (if s = [] then Inl ErrSyntax else ParseUint_loop s 0)"

text \<open>\<open>strconv.ParseInt(s, 10, 64)\<close>.\<close>

definition ParseInt :: "rune list \<Rightarrow> scan_error + int" where
  "ParseInt s =
     (if s = [] then Inl ErrSyntax
      else
        let neg = (hd s = 45);
            s1 = (if hd s = 43 \<or> hd s = 45 then tl s else s)
        in case ParseUint s1 of
             Inl e \<Rightarrow> Inl e
           | Inr un \<Rightarrow>
               if \<not> neg \<and> un \<ge> 2 ^ 63 then Inl ErrRange
               else if neg \<and> un > 2 ^ 63 then Inl ErrRange
               else Inr (if neg then - int un else int un))"

text \<open>
  \<open>ss.scanInt('d', 64)\<close> after the \<open>SkipSpace\<close> of \<open>doScanf\<close>: skip spaces, require
  input, accept a sign, require a first digit, accept the further digits, and hand the
  token to \<open>ParseInt\<close>.
\<close>

definition scanInt :: "rune list \<Rightarrow> scan_error + int" where
  "scanInt rs0 =
     (case SkipSpace rs0 of
        Inl e \<Rightarrow> Inl e
      | Inr rs \<Rightarrow>
          if rs = [] then Inl ScanEOF
          else
            let (_, sgn, rs1) = accept sign rs in
            if rs1 = [] then Inl ScanEOF
            else
              let (ok, d, rs2) = accept decimalDigits rs1 in
              if \<not> ok then Inl ExpectedInteger
              else
                let (tok, _) = accept_loop decimalDigits (sgn @ d) rs2
                in ParseInt tok)"

text \<open>
  \<open>fmt.Sscanf(string(data), "%d", &lastOffset)\<close>: the number of items scanned, the
  error, and the value of the variable afterwards (declared just before, so 0 unless
  assigned). Input after the number is left unread and is no error.
\<close>

definition Sscanf_d :: "string \<Rightarrow> nat \<times> scan_error option \<times> int64" where
  "Sscanf_d data =
     (case SkipSpace (take hugeWid (runes data)) of
        Inl e \<Rightarrow> (0, Some e, 0)
      | Inr rs \<Rightarrow>
          (case scanInt rs of
             Inl e \<Rightarrow> (0, Some e, 0)
           | Inr i \<Rightarrow> (1, None, word_of_int i)))"

subsection \<open>\<open>LoadState\<close> and \<open>SaveState\<close>\<close>

text \<open>
  \<open>TailerBase.LoadState\<close> and \<open>TailerBase.SaveState\<close>
  (\<^verbatim>\<open>src/httptail_main.go\<close>, lines 209-244).
\<close>

datatype load_error =
    CouldNotReadCheckpoint \<comment> \<open>"could not read checkpoint file: ..."\<close>
  | ScanFailed scan_error \<comment> \<open>the error of \<open>Sscanf\<close>, returned as it is\<close>
  | InvalidCheckpointFile \<comment> \<open>"invalid checkpoint file"\<close>
  | InvalidOffset int64 \<comment> \<open>"invalid offset in checkpoint file: %d"\<close>

definition LoadState ::
  "fsys \<Rightarrow> 'a TailerBase_scheme \<Rightarrow> load_error option \<times> 'a TailerBase_scheme" where
  "LoadState fs t =
     (if stateFilePath t = [] then (None, t\<lparr>lastOffset := 0\<rparr>)
      else case ReadFile fs (stateFilePath t) of
        Inl err \<Rightarrow>
          if err = ErrNotExist then (None, t\<lparr>lastOffset := 0\<rparr>)
          else (Some CouldNotReadCheckpoint, t)
      | Inr data \<Rightarrow>
          let (n, err, off) = Sscanf_d data in
          (case err of
             Some e \<Rightarrow> (Some (ScanFailed e), t)
           | None \<Rightarrow>
               if n < 1 then (Some InvalidCheckpointFile, t)
               else if off <s 0 then (Some (InvalidOffset off), t)
               else (None, t\<lparr>lastOffset := off\<rparr>)))"

definition SaveState :: "fsys \<Rightarrow> 'a TailerBase_scheme \<Rightarrow> write_error option \<times> fsys" where
  "SaveState fs t =
     (if stateFilePath t = [] then (None, fs)
      else WriteFile fs (stateFilePath t) (Sprintf_d (lastOffset t) @ nlByte))"


section \<open>The controller\<close>

text \<open>
  The interface \<open>Tailer\<close> has two implementations; \<open>LoadState\<close> and \<open>SaveState\<close> are
  the methods of the embedded \<open>TailerBase\<close>.
\<close>

datatype Tailer = HttpT HttpTailer | SftpT SftpTailer

record net_env =
  http :: http_env
  sftp :: sftp_env

fun FetchNewLines ::
  "net_env \<Rightarrow> Tailer \<Rightarrow> (fetch_error + string list) \<times> diagnostic list \<times> Tailer" where
  "FetchNewLines env (HttpT t) =
     (let (r, diag, t') = HttpFetchNewLines (http env) t in (r, diag, HttpT t'))"
| "FetchNewLines env (SftpT t) =
     (let (r, diag, t') = SftpFetchNewLines (sftp env) t in (r, diag, SftpT t'))"

fun TailerLoadState :: "fsys \<Rightarrow> Tailer \<Rightarrow> load_error option \<times> Tailer" where
  "TailerLoadState fs (HttpT t) = (let (err, t') = LoadState fs t in (err, HttpT t'))"
| "TailerLoadState fs (SftpT t) = (let (err, t') = LoadState fs t in (err, SftpT t'))"

fun TailerSaveState :: "fsys \<Rightarrow> Tailer \<Rightarrow> write_error option \<times> fsys" where
  "TailerSaveState fs (HttpT t) = SaveState fs t"
| "TailerSaveState fs (SftpT t) = SaveState fs t"

fun offset_of :: "Tailer \<Rightarrow> int64" where
  "offset_of (HttpT t) = lastOffset t"
| "offset_of (SftpT t) = lastOffset t"

fun path_of :: "Tailer \<Rightarrow> string" where
  "path_of (HttpT t) = stateFilePath t"
| "path_of (SftpT t) = stateFilePath t"

subsection \<open>\<open>CreateTailerFromArgs\<close>\<close>

text \<open>
  What \<open>url.Parse\<close> made of the argument: the fields the function reads. A password
  that the URL does not give is the empty string.
\<close>

record parsed_url =
  Scheme :: string
  Host :: string
  User_Username :: string
  User_Password :: string
  Path :: string
  String :: string

datatype create_error = InvalidUrl | MissingPassword | MissingFilePath | InvalidProtocol string

text \<open>
  What \<open>flag.Parse()\<close> makes of the command line. The default flag set exits the
  process itself (\<open>flag.ExitOnError\<close>): with code 0 after \<open>-h\<close> or \<open>-help\<close>, with
  code 2 on a flag that is undefined or has a malformed value.
\<close>

datatype flag_outcome = FlagsParsed | FlagHelp | FlagError

text \<open>The flags and the environment the start-up reads.\<close>

record config =
  flagParse :: flag_outcome
  NArg :: nat
  urlParsed :: "parsed_url option" \<comment> \<open>\<open>url.Parse(flag.Arg(0))\<close>; \<open>None\<close>: an error\<close>
  flag_requestTimeoutSec :: int
  flag_stateFilePath :: string
  SFTP_PASSWORD :: string

definition CreateTailerFromArgs :: "config \<Rightarrow> create_error + Tailer" where
  "CreateTailerFromArgs cfg =
     (case urlParsed cfg of
        None \<Rightarrow> Inl InvalidUrl
      | Some u \<Rightarrow>
          if Scheme u = ''http'' \<or> Scheme u = ''https''
          then Inr (HttpT (NewHttpTailer (String u) (flag_requestTimeoutSec cfg)
                            (flag_stateFilePath cfg)))
          else if Scheme u = ''sftp''
          then
            let pw = User_Password u;
                pw = (if pw = [] then SFTP_PASSWORD cfg else pw)
            in if pw = [] then Inl MissingPassword
               else if length (Path u) < 1 then Inl MissingFilePath
               else Inr (SftpT (NewSftpTailer (Host u) (User_Username u) pw (drop 1 (Path u))
                                 (flag_requestTimeoutSec cfg) (flag_stateFilePath cfg)))
          else Inl (InvalidProtocol (Scheme u)))"

subsection \<open>\<open>main\<close>\<close>

text \<open>
  The state of the running program: its reader, the file system, and what it has written
  to standard output (one entry per \<open>fmt.Println\<close>) and to standard error.
\<close>

record main_state =
  tailer :: Tailer
  disk :: fsys
  stdout :: "string list"
  stderr :: "diagnostic list"

text \<open>A process has exited with a code, or is in its polling loop.\<close>

datatype process = Exited int "diagnostic list" | Running main_state

text \<open>
  \<open>main\<close> up to the loop: \<open>flag.Parse()\<close> with its own exits, the argument count, the
  creation of the reader and the loading of the checkpoint, whose failure is only printed.
\<close>

definition main_start :: "config \<Rightarrow> fsys \<Rightarrow> process" where
  "main_start cfg files0 =
     (case flagParse cfg of
        FlagHelp \<Rightarrow> Exited 0 [MsgFlagUsage]
      | FlagError \<Rightarrow> Exited 2 [MsgFlagError, MsgFlagUsage]
      | FlagsParsed \<Rightarrow>
          if NArg cfg \<noteq> 1 then Exited 1 [MsgUsage]
          else (case CreateTailerFromArgs cfg of
                  Inl e \<Rightarrow> Exited 1 [MsgFailedToCreateTailer]
                | Inr t \<Rightarrow>
                    let (err, t') = TailerLoadState files0 t
                    in Running \<lparr>tailer = t', disk = files0, stdout = [],
                                stderr = (if err \<noteq> None then [MsgFailedToLoadState]
                                          else [])\<rparr>))"

text \<open>One iteration of the \<open>for\<close> loop (the sleep apart).\<close>

definition main_cycle :: "net_env \<Rightarrow> main_state \<Rightarrow> main_state" where
  "main_cycle env s =
     (case FetchNewLines env (tailer s) of
        (Inl err, diag, t') \<Rightarrow>
          s\<lparr>tailer := t', stderr := stderr s @ diag @ [MsgErrorFetchingFile]\<rparr>
      | (Inr lines, diag, t') \<Rightarrow>
          let (werr, fs') = TailerSaveState (disk s) t'
          in s\<lparr>tailer := t', disk := fs',
               stderr := stderr s @ diag @ (if werr \<noteq> None then [MsgFailedToSaveState] else []),
               stdout := stdout s @ lines\<rparr>)"

text \<open>
  The loop never ends; the program after the polls answered by the given environments,
  in order, is what a finite prefix of the loop leaves.
\<close>

fun main_loop :: "net_env list \<Rightarrow> main_state \<Rightarrow> main_state" where
  "main_loop [] s = s"
| "main_loop (env # envs) s = main_loop envs (main_cycle env s)"

definition main :: "config \<Rightarrow> fsys \<Rightarrow> net_env list \<Rightarrow> process" where
  "main cfg files0 envs =
     (case main_start cfg files0 of
        Exited c diag \<Rightarrow> Exited c diag
      | Running s \<Rightarrow> Running (main_loop envs s))"


section \<open>Well-formed checkpoints\<close>

text \<open>
  The vocabulary for saying what \<open>LoadState\<close> accepts. A decimal digit, as a rune; the
  number a sequence of digits denotes; and the shape of an accepted content: spaces other
  than newline, an optional sign (a minus only before zero), one or more decimal digits
  denoting a number below \<open>2^63\<close>, and then the end or a rune that is not a digit.
\<close>

definition is_digit :: "rune \<Rightarrow> bool" where
  "is_digit r \<longleftrightarrow> 48 \<le> r \<and> r \<le> 57"

definition decimal_value :: "rune list \<Rightarrow> nat" where
  "decimal_value ds = foldl (\<lambda>a c. a * 10 + (c - 48)) 0 ds"

definition integer_prefix :: "rune list \<Rightarrow> nat \<Rightarrow> bool" where
  "integer_prefix rs n \<longleftrightarrow>
     (\<exists>sp sg ds rest. rs = sp @ sg @ ds @ rest
        \<and> (\<forall>r \<in> set sp. isSpace r \<and> r \<noteq> 10)
        \<and> (sg = [] \<or> sg = [43] \<or> (sg = [45] \<and> n = 0))
        \<and> ds \<noteq> [] \<and> (\<forall>d \<in> set ds. is_digit d)
        \<and> (rest = [] \<or> \<not> is_digit (hd rest))
        \<and> decimal_value ds = n \<and> n < 2 ^ 63)"

section \<open>Environments\<close>

text \<open>
  Two environments used to state what a poll of an unchanged or growing file does. An
  SFTP server holding a file with the given content: every step succeeds, the size is the
  length of the content and a read after a seek yields the content from that position.
\<close>

definition sftp_serving :: "string \<Rightarrow> sftp_env" where
  "sftp_serving content =
     \<lparr>DialOk = True, NewClientOk = True, OpenOk = True,
      StatSize = Some (word_of_nat (length content)),
      SeekOk = (\<lambda>pos. True),
      ReadAll = (\<lambda>pos. Some (drop (nat (sint pos)) content))\<rparr>"

text \<open>
  An HTTP server that honours range requests on a file with the given content: the whole
  content with status 200 without a \<open>Range\<close> header, the content from the requested
  start with status 206, and status 416 for a start at or beyond the end.
\<close>

definition http_serving :: "string \<Rightarrow> http_env" where
  "http_serving content =
     \<lparr>NewRequestFails = False,
      Do = (\<lambda>range. case range of
              None \<Rightarrow> Some \<lparr>StatusCode = 200, Body = Some content\<rparr>
            | Some start \<Rightarrow>
                if nat (sint start) < length content
                then Some \<lparr>StatusCode = 206, Body = Some (drop (nat (sint start)) content)\<rparr>
                else Some \<lparr>StatusCode = 416, Body = Some []\<rparr>)\<rparr>"

text \<open>
  An HTTP server that answers every request, whatever its \<open>Range\<close>, with the given
  status and body; with status 200 it is a server without support for range requests.
\<close>

definition http_answering :: "int \<Rightarrow> string \<Rightarrow> http_env" where
  "http_answering status content =
     \<lparr>NewRequestFails = False,
      Do = (\<lambda>range. Some \<lparr>StatusCode = status, Body = Some content\<rparr>)\<rparr>"

text \<open>A network on which \<open>client.Do\<close> fails.\<close>

definition http_unreachable :: http_env where
  "http_unreachable = \<lparr>NewRequestFails = False, Do = (\<lambda>range. None)\<rparr>"

text \<open>
  An SFTP server holding the given content whose connection breaks while the file is
  read: every \<open>io.ReadAll\<close> fails.
\<close>

definition sftp_read_failing :: "string \<Rightarrow> sftp_env" where
  "sftp_read_failing content = (sftp_serving content)\<lparr>ReadAll := (\<lambda>pos. None)\<rparr>"

text \<open>A file system holding one file, readable and writable.\<close>

definition single_file :: "string \<Rightarrow> string \<Rightarrow> fsys" where
  "single_file path data =
     \<lparr>files = (\<lambda>p. if p = path then Some data else None),
      readFails = (\<lambda>p. False), writeFails = (\<lambda>p. False)\<rparr>"

text \<open>The command line of an HTTP run with the given checkpoint path.\<close>

definition http_config :: "string \<Rightarrow> config" where
  "http_config path =
     \<lparr>flagParse = FlagsParsed, NArg = 1,
      urlParsed = Some \<lparr>Scheme = ''http'', Host = ''example.org'', User_Username = [],
                        User_Password = [], Path = ''/log'',
                        String = ''http://example.org/log''\<rparr>,
      flag_requestTimeoutSec = 5, flag_stateFilePath = path, SFTP_PASSWORD = []\<rparr>"

text \<open>
  The number of range warnings a reader may still write: one while an HTTP reader's
  \<open>rangeNotSupported\<close> is unset, none otherwise.
\<close>

fun pending_warnings :: "Tailer \<Rightarrow> nat" where
  "pending_warnings (HttpT t) = (if rangeNotSupported t then 0 else 1)"
| "pending_warnings (SftpT t) = 0"

section \<open>Verification\<close>

subsection \<open>Signed 64-bit arithmetic\<close>

lemma sint_of_nat64: "n < 2 ^ 63 \<Longrightarrow> sint (word_of_nat n :: int64) = int n"
  by (simp add: signed_of_nat signed_take_bit_int_eq_self)

lemma sless_of_nat64:
  "m < 2 ^ 63 \<Longrightarrow> n < 2 ^ 63 \<Longrightarrow> (word_of_nat m :: int64) <s word_of_nat n \<longleftrightarrow> m < n"
  by (simp add: word_sless_alt sint_of_nat64)

lemma of_nat64_eq_iff:
  "m < 2 ^ 63 \<Longrightarrow> n < 2 ^ 63 \<Longrightarrow> (word_of_nat m :: int64) = word_of_nat n \<longleftrightarrow> m = n"
  by (metis sint_of_nat64 of_nat_eq_iff)

lemma zero_sless_of_nat64: "n < 2 ^ 63 \<Longrightarrow> (0 :: int64) <s word_of_nat n \<longleftrightarrow> 0 < n"
  using sless_of_nat64 [of 0 n] by simp

lemma sint_of_nat64_pred:
  assumes "0 < n" and "n < 2 ^ 63"
  shows "sint (word_of_nat n - 1 :: int64) = int n - 1"
proof -
  have "(word_of_nat n - 1 :: int64) = word_of_nat (n - 1)"
    using assms by (simp add: of_nat_diff)
  moreover have "n - 1 < 2 ^ 63" using assms by simp
  ultimately show ?thesis
    using assms sint_of_nat64 [of "n - 1"] by (simp add: of_nat_diff)
qed

subsection \<open>Properties of the extraction loop\<close>

lemma extract_loop_no_newline:
  "CHR 0x0A \<notin> set body \<Longrightarrow> extract_loop body acc off = (acc, off)"
  by (subst extract_loop.simps) (simp add: bytes_Index_nl)

lemma extract_loop_line:
  assumes "CHR 0x0A \<notin> set l"
  shows "extract_loop (l @ nlByte @ rest) acc off
         = extract_loop rest (acc @ [l]) (off + word_of_nat (length l + 1))"
proof -
  have "takeWhile (\<lambda>c. c \<noteq> CHR 0x0A) (l @ nlByte @ rest)
        = l @ takeWhile (\<lambda>c. c \<noteq> CHR 0x0A) (nlByte @ rest)"
    using assms by (intro takeWhile_append2) auto
  then have tw: "takeWhile (\<lambda>c. c \<noteq> CHR 0x0A) (l @ nlByte @ rest) = l"
    by (simp add: nlByte_def)
  have idx: "bytes_Index (l @ nlByte @ rest) nlByte = int (length l)"
    by (simp only: bytes_Index_nl tw) (simp add: nlByte_def)
  show ?thesis
    by (subst extract_loop.simps) (simp add: idx Let_def, simp add: nlByte_def add.commute)
qed

lemma terminated_Nil [simp]: "terminated [] = []"
  by (simp add: terminated_def)

lemma terminated_Cons [simp]: "terminated (l # ls) = l @ nlByte @ terminated ls"
  by (simp add: terminated_def)

lemma length_terminated_Cons:
  "length (terminated (l # ls)) = (length l + 1) + length (terminated ls)"
  by (simp add: nlByte_def)

lemma extract_loop_terminated:
  assumes "\<forall>l \<in> set ls. CHR 0x0A \<notin> set l" and "CHR 0x0A \<notin> set rest"
  shows "extract_loop (terminated ls @ rest) acc off
         = (acc @ ls, off + word_of_nat (length (terminated ls)))"
  using assms
proof (induction ls arbitrary: acc off)
  case Nil
  then show ?case
    by (simp add: extract_loop_no_newline)
next
  case (Cons l ls)
  have "extract_loop (terminated (l # ls) @ rest) acc off
        = extract_loop (terminated ls @ rest) (acc @ [l]) (off + word_of_nat (length l + 1))"
    using Cons.prems extract_loop_line [of l "terminated ls @ rest" acc off] by simp
  also have "\<dots> = ((acc @ [l]) @ ls,
                   off + word_of_nat (length l + 1) + word_of_nat (length (terminated ls)))"
    using Cons.prems by (intro Cons.IH) auto
  also have "\<dots> = (acc @ l # ls, off + word_of_nat (length (terminated (l # ls))))"
    by (simp only: length_terminated_Cons of_nat_add) (simp add: algebra_simps)
  finally show ?case .
qed

text \<open>Every buffer splits into complete lines and a rest without newline.\<close>

lemma buffer_decomposition:
  "\<exists>ls rest. body = terminated ls @ rest \<and> (\<forall>l \<in> set ls. CHR 0x0A \<notin> set l)
     \<and> CHR 0x0A \<notin> set rest"
proof (induction body rule: length_induct)
  case (1 body)
  show ?case
  proof (cases "CHR 0x0A \<in> set body")
    case False
    then have "body = terminated [] @ body \<and> (\<forall>l \<in> set []. CHR 0x0A \<notin> set l)
                 \<and> CHR 0x0A \<notin> set body"
      by simp
    then show ?thesis by blast
  next
    case True
    then obtain l tl where split: "body = l @ CHR 0x0A # tl" and l: "CHR 0x0A \<notin> set l"
      by (meson split_list_first)
    then have "length tl < length body" by simp
    with 1 obtain ls rest where tl: "tl = terminated ls @ rest"
        and ls: "\<forall>l \<in> set ls. CHR 0x0A \<notin> set l" and rest: "CHR 0x0A \<notin> set rest"
      by blast
    have "body = terminated (l # ls) @ rest"
      using split tl by (simp add: nlByte_def)
    moreover have "\<forall>x \<in> set (l # ls). CHR 0x0A \<notin> set x"
      using l ls by simp
    ultimately show ?thesis
      using rest by blast
  qed
qed


subsection \<open>One poll of a file that has grown\<close>

lemma sftp_poll:
  assumes ls: "\<forall>l \<in> set ls. CHR 0x0A \<notin> set l" and rest: "CHR 0x0A \<notin> set rest"
    and len: "length (pre @ terminated ls @ rest) < 2 ^ 63"
    and off: "lastOffset t = word_of_nat (length pre)"
  shows "\<exists>t'. SftpFetchNewLines (sftp_serving (pre @ terminated ls @ rest)) t = (Inr ls, [], t')
           \<and> lastOffset t' = word_of_nat (length (pre @ terminated ls))"
proof -
  let ?F = "pre @ terminated ls @ rest"
  have pre: "length pre < 2 ^ 63" and F: "length ?F < 2 ^ 63" using len by auto
  have nlt: "\<not> (word_of_nat (length ?F) :: int64) <s word_of_nat (length pre)"
    using sless_of_nat64 [OF F pre] by simp
  have sp: "nat (sint (word_of_nat (length pre) :: int64)) = length pre"
    by (simp add: sint_of_nat64 [OF pre])
  show ?thesis
  proof (cases "terminated ls @ rest = []")
    case True
    then have "ls = []" by (cases ls) (auto simp: nlByte_def)
    with True show ?thesis
      by (simp add: SftpFetchNewLines_def sftp_serving_def connect_def off word_sless_alt
            split: prod.splits)
  next
    case False
    then have ne: "(word_of_nat (length ?F) :: int64) \<noteq> word_of_nat (length pre)"
      using of_nat64_eq_iff [OF F pre] by simp
    show ?thesis
      using nlt ne sp
      by (simp add: SftpFetchNewLines_def sftp_serving_def connect_def off Let_def
            extract_loop_terminated [OF ls rest] split: prod.splits)
  qed
qed

lemma http_poll:
  assumes ls: "\<forall>l \<in> set ls. CHR 0x0A \<notin> set l" and rest: "CHR 0x0A \<notin> set rest"
    and len: "length (pre @ terminated ls @ rest) < 2 ^ 63"
    and off: "lastOffset t = word_of_nat (length pre)"
  shows "\<exists>diag t'. HttpFetchNewLines (http_serving (pre @ terminated ls @ rest)) t
                      = (Inr ls, diag, t')
           \<and> lastOffset t' = word_of_nat (length (pre @ terminated ls))"
proof -
  let ?F = "pre @ terminated ls @ rest"
  have pre: "length pre < 2 ^ 63" and F: "length ?F < 2 ^ 63" using len by auto
  have ex: "extract_loop (terminated ls @ rest) [] (word_of_nat (length pre))
            = (ls, word_of_nat (length pre) + word_of_nat (length (terminated ls)))"
    using extract_loop_terminated [OF ls rest] by simp
  show ?thesis
  proof (cases "pre = []")
    case True
    note pre_nil = this
    show ?thesis
    proof (cases "terminated ls @ rest = []")
      case True
      then have "ls = []" by (cases ls) (auto simp: nlByte_def)
      with True pre_nil show ?thesis
        by (simp add: HttpFetchNewLines_def http_serving_def off)
    next
      case False
      then have "\<not> int (length (terminated ls)) + int (length rest) \<le> 0"
        by (cases "terminated ls"; cases rest; simp)
      with False pre_nil ex show ?thesis
        by (auto simp: HttpFetchNewLines_def http_serving_def off)
    qed
  next
    case False
    then have pos: "0 < length pre" by simp
    have gt: "(0 :: int64) <s word_of_nat (length pre)"
      using zero_sless_of_nat64 [OF pre] pos by simp
    have start: "nat (sint (word_of_nat (length pre) - 1 :: int64)) = length pre - 1"
      using sint_of_nat64_pred [OF pos pre] by simp
    have body: "drop (length pre - 1) ?F = last pre # terminated ls @ rest"
      using False by (metis (no_types) append_butlast_last_id append_Cons append_Nil
          append_assoc drop_append length_butlast append_eq_conv_conj diff_self_eq_0 drop0)
    show ?thesis
    proof (cases "terminated ls @ rest = []")
      case True
      then have "ls = []" by (cases ls) (auto simp: nlByte_def)
      with True gt start body pos show ?thesis
        by (simp add: HttpFetchNewLines_def http_serving_def off)
    next
      case False
      then have "\<not> int (length (terminated ls)) + int (length rest) \<le> 0"
        by (cases "terminated ls"; cases rest; simp)
      with False gt start body pos ex show ?thesis
        by (auto simp: HttpFetchNewLines_def http_serving_def off)
    qed
  qed
qed




subsection \<open>The readers\<close>

lemma extract_loop_nil: "extract_loop [] acc off = (acc, off)"
  by (simp add: extract_loop_no_newline)

lemma http_200_fallback:
  assumes "0 <s lastOffset t" and "\<not> NewRequestFails env"
    and "Do env (Some (lastOffset t - 1)) = Some \<lparr>StatusCode = 200, Body = Some body\<rparr>"
  shows "HttpFetchNewLines env t =
           (Inr (fst (extract_loop (drop (nat (sint (lastOffset t))) body) [] (lastOffset t))),
            (if rangeNotSupported t then [] else [MsgRangeNotSupported])
              @ (if body = [] then [MsgEmptyResponse] else []),
            t\<lparr>rangeNotSupported := True,
              lastOffset := snd (extract_loop (drop (nat (sint (lastOffset t))) body) []
                                  (lastOffset t))\<rparr>)"
proof (cases "int (length body) \<le> sint (lastOffset t)")
  case True
  then have "drop (nat (sint (lastOffset t))) body = []" by simp
  with True assms show ?thesis
    by (simp add: HttpFetchNewLines_def extract_loop_nil)
next
  case False
  then have "body \<noteq> []" using assms(1) by (auto simp: word_sless_alt)
  with False assms show ?thesis
    by (simp add: HttpFetchNewLines_def split: prod.splits)
qed

lemma http_fetch_warning_count:
  assumes "HttpFetchNewLines env t = (r, d, t')"
  shows "count_list d MsgRangeNotSupported + (if rangeNotSupported t' then 0 else 1)
         \<le> (if rangeNotSupported t then 0 else 1)"
  using assms
  by (auto simp: HttpFetchNewLines_def Let_def
      split: if_splits option.splits prod.splits)

lemma sftp_fetch_warning_count:
  assumes "SftpFetchNewLines env t = (r, d, t')"
  shows "count_list d MsgRangeNotSupported = 0"
  using assms
  by (auto simp: SftpFetchNewLines_def Let_def connect_def
      split: if_splits option.splits prod.splits)

lemma fetch_warning_count:
  assumes "FetchNewLines env T = (r, d, T')"
  shows "count_list d MsgRangeNotSupported + pending_warnings T' \<le> pending_warnings T"
proof (cases T)
  case (HttpT t)
  with assms obtain t' where "HttpFetchNewLines (http env) t = (r, d, t')" and "T' = HttpT t'"
    by (auto split: prod.splits)
  with HttpT http_fetch_warning_count [of "http env" t r d t'] show ?thesis by simp
next
  case (SftpT t)
  with assms obtain t' where "SftpFetchNewLines (sftp env) t = (r, d, t')" and "T' = SftpT t'"
    by (auto split: prod.splits)
  with SftpT sftp_fetch_warning_count [of "sftp env" t r d t'] show ?thesis by simp
qed

lemma main_cycle_warning_count:
  "count_list (stderr (main_cycle env s)) MsgRangeNotSupported
     + pending_warnings (tailer (main_cycle env s))
   \<le> count_list (stderr s) MsgRangeNotSupported + pending_warnings (tailer s)"
proof -
  obtain r d T' where f: "FetchNewLines env (tailer s) = (r, d, T')"
    by (cases "FetchNewLines env (tailer s)") auto
  from fetch_warning_count [OF f] f show ?thesis
    by (cases r) (auto simp: main_cycle_def split: prod.splits)
qed

lemma main_loop_warning_count:
  "count_list (stderr (main_loop envs s)) MsgRangeNotSupported
     + pending_warnings (tailer (main_loop envs s))
   \<le> count_list (stderr s) MsgRangeNotSupported + pending_warnings (tailer s)"
proof (induction envs arbitrary: s)
  case Nil
  show ?case by simp
next
  case (Cons env envs)
  have "count_list (stderr (main_loop envs (main_cycle env s))) MsgRangeNotSupported
          + pending_warnings (tailer (main_loop envs (main_cycle env s)))
        \<le> count_list (stderr (main_cycle env s)) MsgRangeNotSupported
          + pending_warnings (tailer (main_cycle env s))"
    by (rule Cons.IH)
  also have "\<dots> \<le> count_list (stderr s) MsgRangeNotSupported + pending_warnings (tailer s)"
    by (rule main_cycle_warning_count)
  finally show ?case by simp
qed

lemma http_empty_buffer:
  assumes "\<not> NewRequestFails env"
    and "Do env (if 0 <s lastOffset t then Some (lastOffset t - 1) else None) = Some resp"
    and "StatusCode resp = 200 \<or> (StatusCode resp = 206 \<and> 0 <s lastOffset t)"
    and "Body resp = Some body"
    and "body = []
         \<or> (0 <s lastOffset t \<and> StatusCode resp = 206 \<and> length body \<le> 1)
         \<or> (0 <s lastOffset t \<and> StatusCode resp = 200
              \<and> int (length body) \<le> sint (lastOffset t))"
  shows "fst (HttpFetchNewLines env t) = Inr []
         \<and> lastOffset (snd (snd (HttpFetchNewLines env t))) = lastOffset t"
  using assms
  by (auto simp: HttpFetchNewLines_def Let_def word_sless_alt split: prod.splits)

lemma sftp_empty_buffer:
  assumes "client t \<or> (DialOk env \<and> NewClientOk env)" and "OpenOk env"
    and "StatSize env = Some sz" and "\<not> sz <s lastOffset t"
    and "sz = lastOffset t
         \<or> (SeekOk env (lastOffset t) \<and> ReadAll env (lastOffset t) = Some [])"
  shows "fst (SftpFetchNewLines env t) = Inr []
         \<and> lastOffset (snd (snd (SftpFetchNewLines env t))) = lastOffset t"
  using assms
  by (auto simp: SftpFetchNewLines_def Let_def connect_def extract_loop_nil split: prod.splits)

lemma http_error_keeps_offset:
  assumes "HttpFetchNewLines env t = (Inl e, d, t')"
  shows "lastOffset t' = lastOffset t"
  using assms
  by (auto simp: HttpFetchNewLines_def Let_def split: if_splits option.splits prod.splits)

lemma sftp_error_offset:
  assumes "SftpFetchNewLines env t = (Inl e, d, t')"
  shows "lastOffset t' = lastOffset t
         \<or> (\<exists>sz. StatSize env = Some sz \<and> sz <s lastOffset t \<and> lastOffset t' = 0)"
  using assms
  by (auto simp: SftpFetchNewLines_def Let_def connect_def disconnect_def
      split: if_splits option.splits prod.splits)

lemma http_416:
  assumes "\<not> NewRequestFails env"
    and "Do env (if 0 <s lastOffset t then Some (lastOffset t - 1) else None) = Some resp"
    and "StatusCode resp = 416"
  shows "HttpFetchNewLines env t = (Inr [], [MsgHttpTruncated], t\<lparr>lastOffset := 0\<rparr>)"
  using assms by (simp add: HttpFetchNewLines_def)

lemma sftp_truncated:
  assumes "client t \<or> (DialOk env \<and> NewClientOk env)" and "OpenOk env"
    and "StatSize env = Some sz" and "sz <s lastOffset t"
  shows "sz = 0 \<longrightarrow>
           SftpFetchNewLines env t
             = (Inr [], [MsgFileTruncated], t\<lparr>lastOffset := 0, client := True, sshClient := (sshClient t \<or> \<not> client t)\<rparr>)"
    and "sz \<noteq> 0 \<and> SeekOk env 0 \<and> ReadAll env 0 = Some body \<longrightarrow>
           SftpFetchNewLines env t
             = (Inr (fst (extract_loop body [] 0)), [MsgFileTruncated],
                t\<lparr>lastOffset := snd (extract_loop body [] 0), client := True, sshClient := (sshClient t \<or> \<not> client t)\<rparr>)"
  using assms
  by (auto simp: SftpFetchNewLines_def Let_def connect_def split: prod.splits)

lemma main_cycle_persists:
  assumes "FetchNewLines env (tailer s) = (Inr lines, d, T')"
    and "path_of T' \<noteq> []" and "\<not> writeFails (disk s) (path_of T')"
  shows "stdout (main_cycle env s) = stdout s @ lines
       \<and> tailer (main_cycle env s) = T'
       \<and> files (disk (main_cycle env s)) (path_of T') = Some (Sprintf_d (offset_of T') @ nlByte)"
  using assms
  by (cases T') (auto simp: main_cycle_def SaveState_def WriteFile_def split: prod.splits)

lemma Sprintf_d_0: "Sprintf_d 0 = ''0''"
  by (simp add: Sprintf_d_def decimal.simps digit_char_def)


lemma Sprintf_d_0_nl: "Sprintf_d 0 @ nlByte = ''0\<newline>''"
  by (simp add: Sprintf_d_0 nlByte_def)

lemma TailerLoadState_error:
  "fst (TailerLoadState fs0 T) \<noteq> None \<Longrightarrow> snd (TailerLoadState fs0 T) = T"
  by (cases T)
     (auto simp: LoadState_def Let_def split: sum.splits prod.splits option.splits if_splits)

lemma CreateTailerFromArgs_offset:
  "CreateTailerFromArgs cfg = Inr T \<Longrightarrow> offset_of T = 0"
  by (auto simp: CreateTailerFromArgs_def NewHttpTailer_def NewSftpTailer_def Let_def
      split: option.splits if_splits)

lemma extract_loop_consumed:
  "\<exists>k \<le> length body. snd (extract_loop body acc off) = off + word_of_nat k"
proof -
  obtain ls rest where "body = terminated ls @ rest"
      and "\<forall>l \<in> set ls. CHR 0x0A \<notin> set l" and "CHR 0x0A \<notin> set rest"
    using buffer_decomposition by blast
  then have "snd (extract_loop body acc off) = off + word_of_nat (length (terminated ls))"
      and "length (terminated ls) \<le> length body"
    using extract_loop_terminated [of ls rest acc off] by simp_all
  then show ?thesis by blast
qed

lemma sint_add_of_nat64:
  assumes "0 \<le> sint (a :: int64)" and "sint a + int k < 2 ^ 63"
  shows "sint (a + word_of_nat k) = sint a + int k"
proof -
  have k: "k < 2 ^ 63" using assms by simp
  have "sint (a + word_of_nat k) = signed_take_bit 63 (sint a + sint (word_of_nat k :: int64))"
    by (simp add: sint_word_ariths)
  also have "\<dots> = signed_take_bit 63 (sint a + int k)"
    by (simp add: sint_of_nat64 [OF k])
  also have "\<dots> = sint a + int k"
    using assms by (intro signed_take_bit_int_eq_self) auto
  finally show ?thesis .
qed

lemma extract_loop_nonneg:
  assumes "0 \<le>s off" and "sint off + int (length body) < 2 ^ 63"
  shows "0 \<le>s snd (extract_loop body acc off)"
proof -
  obtain k where k: "k \<le> length body" "snd (extract_loop body acc off) = off + word_of_nat k"
    using extract_loop_consumed by blast
  have "sint (off + word_of_nat k) = sint off + int k"
    using assms k(1) by (intro sint_add_of_nat64) (auto simp: word_sle_eq)
  then show ?thesis
    using assms(1) k(2) by (simp add: word_sle_eq)
qed

lemma LoadState_nonneg:
  "0 \<le>s lastOffset t \<Longrightarrow> 0 \<le>s lastOffset (snd (LoadState fs0 t))"
  by (auto simp: LoadState_def Let_def word_sle_eq word_sless_alt
      split: sum.splits prod.splits option.splits if_splits)

lemma http_fetch_nonneg:
  assumes "0 \<le>s lastOffset t"
    and "\<forall>req resp body. Do env req = Some resp \<and> Body resp = Some body
           \<longrightarrow> sint (lastOffset t) + int (length body) < 2 ^ 63"
  shows "0 \<le>s lastOffset (snd (snd (HttpFetchNewLines env t)))"
proof (cases "NewRequestFails env")
  case True
  with assms(1) show ?thesis by (simp add: HttpFetchNewLines_def)
next
  case False
  note nf = this
  let ?req = "if 0 <s lastOffset t then Some (lastOffset t - 1) else None"
  show ?thesis
  proof (cases "Do env ?req")
    case None
    with nf assms(1) show ?thesis by (simp add: HttpFetchNewLines_def)
  next
    case (Some resp)
    note do = this
    show ?thesis
    proof (cases "Body resp")
      case None
      with nf do assms(1) show ?thesis
        by (simp add: HttpFetchNewLines_def Let_def split_beta)
    next
      case (Some body)
      have "sint (lastOffset t) + int (length body) < 2 ^ 63"
        using assms(2) do Some by blast
      then have "sint (lastOffset t) + int (length (drop n body)) < 2 ^ 63" for n
        by simp
      then have ex: "0 \<le>s snd (extract_loop (drop n body) [] (lastOffset t))" for n
        using assms(1) by (intro extract_loop_nonneg)
      from nf do Some assms(1) ex ex [of 0] show ?thesis
        by (simp add: HttpFetchNewLines_def Let_def split_beta)
    qed
  qed
qed

lemma sftp_fetch_offset:
  "lastOffset (snd (snd (SftpFetchNewLines env t))) =
     (if (\<not> client t \<and> \<not> (DialOk env \<and> NewClientOk env)) \<or> \<not> OpenOk env then lastOffset t
      else case StatSize env of
        None \<Rightarrow> lastOffset t
      | Some sz \<Rightarrow>
          let pos = (if sz <s lastOffset t then 0 else lastOffset t) in
          if sz = pos \<or> \<not> SeekOk env pos then pos
          else (case ReadAll env pos of
                  None \<Rightarrow> pos
                | Some body \<Rightarrow> snd (extract_loop body [] pos)))"
  by (auto simp: SftpFetchNewLines_def connect_def disconnect_def Let_def
      split: option.split prod.split)

lemma sftp_fetch_nonneg:
  assumes "0 \<le>s lastOffset t"
    and "\<forall>pos body. ReadAll env pos = Some body
           \<longrightarrow> sint (lastOffset t) + int (length body) < 2 ^ 63"
  shows "0 \<le>s lastOffset (snd (snd (SftpFetchNewLines env t)))"
proof -
  have b: "sint (lastOffset t) + int (length body) < 2 ^ 63"
    if "ReadAll env pos = Some body" for pos body
    using assms(2) that by blast
  have ex: "0 \<le>s snd (extract_loop body [] (lastOffset t))"
    if "ReadAll env pos = Some body" for pos body
    using assms(1) b [OF that] by (rule extract_loop_nonneg)
  have ex0: "0 \<le>s snd (extract_loop body [] 0)"
    if "ReadAll env pos = Some body" for pos body
  proof -
    have "sint (0 :: int64) + int (length body) < 2 ^ 63"
      using b [OF that] assms(1) by (simp add: word_sle_eq)
    then show ?thesis by (intro extract_loop_nonneg) simp_all
  qed
  show ?thesis
    using assms(1) ex ex0
    by (auto simp: sftp_fetch_offset Let_def split: option.split)
qed

lemma fetch_nonneg:
  assumes "0 \<le>s offset_of T"
    and "\<forall>req resp body. Do (http env) req = Some resp \<and> Body resp = Some body
           \<longrightarrow> sint (offset_of T) + int (length body) < 2 ^ 63"
    and "\<forall>pos body. ReadAll (sftp env) pos = Some body
           \<longrightarrow> sint (offset_of T) + int (length body) < 2 ^ 63"
  shows "0 \<le>s offset_of (snd (snd (FetchNewLines env T)))"
proof (cases T)
  case (HttpT t)
  with assms http_fetch_nonneg [of t "http env"] show ?thesis
    by (simp add: split_beta)
next
  case (SftpT t)
  with assms sftp_fetch_nonneg [of t "sftp env"] show ?thesis
    by (simp add: split_beta)
qed

lemma main_cycle_tailer: "tailer (main_cycle env s) = snd (snd (FetchNewLines env (tailer s)))"
  by (simp add: main_cycle_def split: prod.splits sum.splits)


lemma TailerLoadState_nonneg:
  "0 \<le>s offset_of T \<Longrightarrow> 0 \<le>s offset_of (snd (TailerLoadState fs0 T))"
  by (cases T) (auto simp: split_beta intro: LoadState_nonneg)

lemma main_start_nonneg:
  assumes "main_start cfg fs0 = Running s"
  shows "0 \<le>s offset_of (tailer s)"
proof -
  from assms obtain T where T: "CreateTailerFromArgs cfg = Inr T"
      and s: "tailer s = snd (TailerLoadState fs0 T)"
    by (auto simp: main_start_def
        split: flag_outcome.splits if_splits sum.splits prod.splits)
  have "0 \<le>s offset_of T"
    using CreateTailerFromArgs_offset [OF T] by simp
  then show ?thesis
    using s TailerLoadState_nonneg by simp
qed

lemma main_loop_append: "main_loop (xs @ ys) s = main_loop ys (main_loop xs s)"
  by (induction xs arbitrary: s) simp_all

lemma main_cycle_error:
  assumes "FetchNewLines env (tailer s) = (Inl e, d, T')"
  shows "main_cycle env s = s\<lparr>tailer := T', stderr := stderr s @ d @ [MsgErrorFetchingFile]\<rparr>"
  using assms by (simp add: main_cycle_def)

lemmas scan_defs = Sscanf_d_def runes_def hugeWid_def isSpace_def space_ranges_def scanInt_def
  accept_def sign_def decimalDigits_def ParseInt_def ParseUint_def

subsection \<open>Printing and scanning the checkpoint\<close>

lemma of_char_digit_char: "d < 10 \<Longrightarrow> of_char (digit_char d) = (48 + d :: nat)"
proof -
  assume "d < 10"
  then consider "d = 0" | "d = 1" | "d = 2" | "d = 3" | "d = 4" | "d = 5" | "d = 6"
    | "d = 7" | "d = 8" | "d = 9"
    by atomize_elim arith
  then show ?thesis
    by cases (simp_all add: digit_char_def)
qed

lemma in_decimalDigits:
  "r \<in> set (map of_char decimalDigits) \<longleftrightarrow> is_digit r"
  by (simp add: decimalDigits_def is_digit_def) arith

lemma in_sign: "r \<in> set (map of_char sign) \<longleftrightarrow> r = 43 \<or> r = 45"
  by (auto simp: sign_def)

lemma not_isSpace_graphic: "33 \<le> r \<Longrightarrow> r < 127 \<Longrightarrow> \<not> isSpace r"
  by (simp add: isSpace_def space_ranges_def)

lemma decimal_digits: "c \<in> set (decimal n) \<Longrightarrow> is_digit (of_char c)"
proof (induction n arbitrary: c rule: decimal.induct)
  case (1 n)
  show ?case
  proof (cases "n < 10")
    case True
    with "1.prems" show ?thesis
      by (subst (asm) decimal.simps) (simp add: of_char_digit_char is_digit_def)
  next
    case False
    with "1.prems" have "c \<in> set (decimal (n div 10)) \<or> c = digit_char (n mod 10)"
      by (subst (asm) decimal.simps) auto
    then show ?thesis
      using "1.IH" [OF False] by (auto simp: of_char_digit_char is_digit_def)
  qed
qed

lemma decimal_not_Nil: "decimal n \<noteq> []"
  by (subst decimal.simps) simp

lemma decimal_value_decimal: "decimal_value (map of_char (decimal n)) = n"
proof (induction n rule: decimal.induct)
  case (1 n)
  show ?case
  proof (cases "n < 10")
    case True
    then show ?thesis
      by (subst decimal.simps) (simp add: decimal_value_def of_char_digit_char)
  next
    case False
    have "decimal_value (map of_char (decimal n))
          = decimal_value (map of_char (decimal (n div 10))) * 10
            + (of_char (digit_char (n mod 10)) - 48)"
      using False by (subst decimal.simps) (simp add: decimal_value_def)
    also have "\<dots> = (n div 10) * 10 + n mod 10"
      using "1.IH" [OF False] by (simp add: of_char_digit_char)
    finally show ?thesis by simp
  qed
qed

lemma length_decimal: "n < 10 ^ k \<Longrightarrow> 0 < k \<Longrightarrow> length (decimal n) \<le> k"
proof (induction n arbitrary: k rule: decimal.induct)
  case (1 n)
  show ?case
  proof (cases "n < 10")
    case True
    with "1.prems" show ?thesis
      by (subst decimal.simps) simp
  next
    case False
    with "1.prems" have k: "1 < k"
      by (cases "k = 1") auto
    then obtain k' where k': "k = Suc k'" "0 < k'"
      by (cases k) auto
    have "n div 10 < 10 ^ k'"
      using "1.prems"(1) k' by (simp add: less_mult_imp_div_less mult.commute)
    then have "length (decimal (n div 10)) \<le> k'"
      using "1.IH" [OF False] k' by simp
    with False k' show ?thesis
      by (subst decimal.simps) simp
  qed
qed

lemma foldl_dec_mono: "(m :: nat) \<le> foldl (\<lambda>a c. a * 10 + (c - 48)) m ds"
proof (induction ds arbitrary: m)
  case Nil
  show ?case by simp
next
  case (Cons d ds)
  have "m \<le> m * 10 + (d - 48)" by simp
  also have "\<dots> \<le> foldl (\<lambda>a c. a * 10 + (c - 48)) (m * 10 + (d - 48)) ds"
    by (rule Cons.IH)
  finally show ?case by simp
qed

lemma ParseUint_loop_digits:
  assumes "\<forall>c \<in> set ds. is_digit c"
    and "foldl (\<lambda>a c. a * 10 + (c - 48)) m ds < (2 ^ 64 :: nat)"
  shows "ParseUint_loop ds m = Inr (foldl (\<lambda>a c. a * 10 + (c - 48)) m ds)"
  using assms
proof (induction ds arbitrary: m)
  case Nil
  show ?case by simp
next
  case (Cons d ds)
  have "m * 10 + (d - 48) \<le> foldl (\<lambda>a c. a * 10 + (c - 48)) (m * 10 + (d - 48)) ds"
    by (rule foldl_dec_mono)
  with Cons.prems(2) have b: "m * 10 + (d - 48) < 2 ^ 64" by simp
  then have c: "m < (2 ^ 64 - 1) div 10 + 1" by simp
  have d: "is_digit d" using Cons.prems(1) by simp
  have "ParseUint_loop (d # ds) m = ParseUint_loop ds (m * 10 + (d - 48))"
    using b c d by (auto simp: is_digit_def)
  also have "\<dots> = Inr (foldl (\<lambda>a c. a * 10 + (c - 48)) (m * 10 + (d - 48)) ds)"
    using Cons.prems by (intro Cons.IH) auto
  finally show ?case by simp
qed

lemma ParseInt_digits:
  assumes "\<forall>c \<in> set ds. is_digit c" and "ds \<noteq> []" and "decimal_value ds < 2 ^ 63"
  shows "ParseInt ds = Inr (int (decimal_value ds))"
proof -
  have "is_digit (hd ds)" using assms(1,2) by (cases ds) auto
  then have hd: "hd ds \<noteq> 43" "hd ds \<noteq> 45" by (auto simp: is_digit_def)
  have "decimal_value ds < 2 ^ 64"
    using assms(3) by simp
  then have "ParseUint ds = Inr (decimal_value ds)"
    using assms(1,2) ParseUint_loop_digits [of ds 0]
    by (simp add: ParseUint_def decimal_value_def)
  then show ?thesis
    using assms(2,3) hd by (simp add: ParseInt_def)
qed

lemma accept_loop_digits:
  assumes "\<forall>c \<in> set ds. is_digit c"
    and "rest = [] \<or> \<not> is_digit (hd rest)"
  shows "accept_loop decimalDigits buf (ds @ rest) = (buf @ ds, rest)"
  using assms
proof (induction ds arbitrary: buf)
  case Nil
  then show ?case
    by (cases rest) (auto simp: in_decimalDigits simp del: set_map)
next
  case (Cons d ds)
  then show ?case
    by (simp add: in_decimalDigits del: set_map)
qed

lemma SkipSpace_digit: "is_digit r \<Longrightarrow> SkipSpace (r # rs) = Inr (r # rs)"
  by (auto simp: is_digit_def not_isSpace_graphic)

lemma scanInt_digits:
  assumes "\<forall>c \<in> set ds. is_digit c" and "ds \<noteq> []" and "decimal_value ds < 2 ^ 63"
    and "rest = [] \<or> \<not> is_digit (hd rest)"
  shows "scanInt (ds @ rest) = Inr (int (decimal_value ds))"
proof -
  obtain d ds' where ds: "ds = d # ds'" using assms(2) by (cases ds) auto
  have d: "is_digit d" and ds': "\<forall>c \<in> set ds'. is_digit c"
    using assms(1) ds by auto
  have sk: "SkipSpace (ds @ rest) = Inr (ds @ rest)"
    using d ds by (simp add: SkipSpace_digit del: SkipSpace.simps)
  have s: "accept sign (ds @ rest) = (False, [], ds @ rest)"
    using d ds by (auto simp: accept_def in_sign is_digit_def simp del: set_map)
  have a: "accept decimalDigits (ds @ rest) = (True, [d], ds' @ rest)"
    using d ds by (simp add: accept_def in_decimalDigits del: set_map)
  have l: "accept_loop decimalDigits [d] (ds' @ rest) = (ds, rest)"
    using accept_loop_digits [OF ds' assms(4), of "[d]"] ds by simp
  show ?thesis
    using sk s a l ParseInt_digits [OF assms(1,2,3)] ds
    by (simp add: scanInt_def)
qed

lemma runes_from_ascii:
  "of_char c < (128 :: nat) \<Longrightarrow> runes_from 0 (c # cs) = of_char c # runes_from 0 cs"
  by simp

lemma runes_ascii_append:
  "\<forall>c \<in> set s. of_char c < (128 :: nat) \<Longrightarrow> runes (s @ rest) = map of_char s @ runes rest"
  by (induction s) (simp_all add: runes_def)

lemma runes_Nil [simp]: "runes [] = []"
  by (simp add: runes_def)

lemma hd_take_pos: "0 < k \<Longrightarrow> xs \<noteq> [] \<Longrightarrow> hd (take k xs) = hd xs"
  by (cases xs; cases k) simp_all

lemma Sscanf_d_decimal:
  assumes "n < 2 ^ 63"
    and "runes rest = [] \<or> \<not> is_digit (hd (runes rest))"
  shows "Sscanf_d (decimal n @ rest) = (1, None, word_of_nat n)"
proof -
  let ?ds = "map of_char (decimal n) :: rune list"
  have dig: "\<forall>c \<in> set ?ds. is_digit c"
    using decimal_digits by auto
  have ne: "?ds \<noteq> []"
    using decimal_not_Nil by simp
  have val: "decimal_value ?ds = n"
    by (rule decimal_value_decimal)
  have "n < 10 ^ 19" using assms(1) by simp
  then have len: "length ?ds \<le> 19"
    using length_decimal [of n 19] by simp
  have ascii: "\<forall>c \<in> set (decimal n). of_char c < (128 :: nat)"
    using decimal_digits by (fastforce simp: is_digit_def)
  let ?rest = "take (hugeWid - length ?ds) (runes rest)"
  have tk: "take hugeWid (runes (decimal n @ rest)) = ?ds @ ?rest"
    using len by (simp add: runes_ascii_append [OF ascii] hugeWid_def)
  have pos: "0 < hugeWid - length ?ds"
    using len by (simp add: hugeWid_def)
  have rest: "?rest = [] \<or> \<not> is_digit (hd ?rest)"
  proof (cases "runes rest = []")
    case True
    then show ?thesis by simp
  next
    case False
    with assms(2) hd_take_pos [OF pos False] show ?thesis by simp
  qed
  obtain d ds' where ds: "?ds = d # ds'" using ne by (cases ?ds) auto
  then have "is_digit d" using dig by (metis list.set_intros(1))
  then have sk: "SkipSpace (?ds @ ?rest) = Inr (?ds @ ?rest)"
    unfolding ds by (simp add: SkipSpace_digit del: SkipSpace.simps)
  have sc: "scanInt (?ds @ ?rest) = Inr (int n)"
    using scanInt_digits [OF dig ne _ rest] val assms(1) by simp
  show ?thesis
    by (simp only: Sscanf_d_def tk sk sc sum.case) simp
qed

lemma Sprintf_d_nonneg:
  assumes "0 \<le>s (w :: int64)"
  shows "Sprintf_d w = decimal (nat (sint w))" and "nat (sint w) < 2 ^ 63"
    and "word_of_nat (nat (sint w)) = w"
proof -
  have nn: "0 \<le> sint w" using assms by (simp add: word_sle_eq)
  then show "Sprintf_d w = decimal (nat (sint w))"
    by (simp add: Sprintf_d_def)
  have "sint w < 2 ^ 63"
    using sint_lt [of w] by simp
  with nn show "nat (sint w) < 2 ^ 63" by simp
  show "word_of_nat (nat (sint w)) = w"
    using nn by simp
qed

lemma Sscanf_d_Sprintf_d:
  assumes "0 \<le>s (w :: int64)"
    and "runes rest = [] \<or> \<not> is_digit (hd (runes rest))"
  shows "Sscanf_d (Sprintf_d w @ rest) = (1, None, w)"
  using Sscanf_d_decimal [OF Sprintf_d_nonneg(2) [OF assms(1)] assms(2)]
    Sprintf_d_nonneg(1,3) [OF assms(1)]
  by simp

lemma runes_nlByte: "runes (nlByte @ rest) = 10 # runes rest"
  by (simp add: nlByte_def runes_def)

lemma save_then_load:
  assumes "0 \<le>s lastOffset t" and "stateFilePath t \<noteq> []"
    and "\<not> writeFails fs0 (stateFilePath t)" and "\<not> readFails fs0 (stateFilePath t)"
    and "stateFilePath t' = stateFilePath t"
  shows "SaveState fs0 t
           = (None, fs0\<lparr>files := (files fs0)(stateFilePath t \<mapsto> Sprintf_d (lastOffset t) @ nlByte)\<rparr>)"
    and "LoadState (snd (SaveState fs0 t)) t' = (None, t'\<lparr>lastOffset := lastOffset t\<rparr>)"
proof -
  show s: "SaveState fs0 t
           = (None, fs0\<lparr>files := (files fs0)(stateFilePath t \<mapsto> Sprintf_d (lastOffset t) @ nlByte)\<rparr>)"
    using assms by (simp add: SaveState_def WriteFile_def)
  have sc: "Sscanf_d (Sprintf_d (lastOffset t) @ nlByte) = (1, None, lastOffset t)"
    using Sscanf_d_Sprintf_d [OF assms(1), of nlByte] runes_nlByte [of "[]"]
    by (simp add: is_digit_def)
  have "\<not> lastOffset t <s 0"
    using assms(1) by (simp add: word_sle_eq word_sless_alt)
  then show "LoadState (snd (SaveState fs0 t)) t' = (None, t'\<lparr>lastOffset := lastOffset t\<rparr>)"
    using assms sc by (simp add: s LoadState_def ReadFile_def)
qed

lemma SkipSpace_Inr:
  "SkipSpace rs = Inr rs' \<Longrightarrow>
     \<exists>sp. rs = sp @ rs' \<and> (\<forall>r \<in> set sp. isSpace r \<and> r \<noteq> 10)
          \<and> (rs' = [] \<or> \<not> isSpace (hd rs'))"
proof (induction rs rule: SkipSpace.induct)
  case 1
  then show ?case by simp
next
  case (2 r rs)
  show ?case
  proof (cases "r = 0x0A")
    case True
    with "2.prems" show ?thesis by (auto split: list.splits)
  next
    case False
    note nl = this
    show ?thesis
    proof (cases "isSpace r")
      case False
      with nl "2.prems" have "r \<noteq> 0x0D"
        by (auto simp: isSpace_def space_ranges_def)
      with False nl "2.prems" have "rs' = r # rs" by simp
      with False show ?thesis by simp
    next
      case True
      with nl "2.prems" have rec: "SkipSpace rs = Inr rs'"
        by (simp split: if_splits)
      have "\<exists>sp. rs = sp @ rs' \<and> (\<forall>r \<in> set sp. isSpace r \<and> r \<noteq> 10)
          \<and> (rs' = [] \<or> \<not> isSpace (hd rs'))"
      proof (cases "r = 0x0D \<and> (case rs of [] \<Rightarrow> False | r' # _ \<Rightarrow> r' = 0x0A)")
        case True
        then show ?thesis using "2.IH"(1) rec by simp
      next
        case False
        then show ?thesis using "2.IH"(2) [OF False nl _ rec] True by simp
      qed
      then obtain sp where "rs = sp @ rs'" "\<forall>r \<in> set sp. isSpace r \<and> r \<noteq> 10"
          "rs' = [] \<or> \<not> isSpace (hd rs')"
        by blast
      then have "r # rs = (r # sp) @ rs' \<and> (\<forall>x \<in> set (r # sp). isSpace x \<and> x \<noteq> 10)
          \<and> (rs' = [] \<or> \<not> isSpace (hd rs'))"
        using True nl by simp
      then show ?thesis by blast
    qed
  qed
qed

lemma accept_loop_takeWhile:
  "accept_loop ok buf rs
     = (buf @ takeWhile (\<lambda>r. r \<in> set (map of_char ok)) rs,
        dropWhile (\<lambda>r. r \<in> set (map of_char ok)) rs)"
  by (induction rs arbitrary: buf) simp_all

lemma ParseUint_loop_Inr:
  "ParseUint_loop ds m = Inr v \<Longrightarrow>
     (\<forall>c \<in> set ds. is_digit c) \<and> v = foldl (\<lambda>a c. a * 10 + (c - 48)) m ds"
  by (induction ds arbitrary: m) (auto simp: is_digit_def split: if_splits)

lemma ParseUint_Inr:
  "ParseUint ds = Inr v \<Longrightarrow> ds \<noteq> [] \<and> (\<forall>c \<in> set ds. is_digit c) \<and> v = decimal_value ds"
  using ParseUint_loop_Inr [of ds 0 v]
  by (auto simp: ParseUint_def decimal_value_def split: if_splits)


lemma ParseInt_Inr:
  assumes "ParseInt tok = Inr i"
  shows "\<exists>sg ds. tok = sg @ ds \<and> (sg = [] \<or> sg = [43] \<or> sg = [45]) \<and> ds \<noteq> []
           \<and> (\<forall>d \<in> set ds. is_digit d)
           \<and> i = (if sg = [45] then - int (decimal_value ds) else int (decimal_value ds))
           \<and> (if sg = [45] then decimal_value ds \<le> 2 ^ 63 else decimal_value ds < 2 ^ 63)"
proof -
  from assms have ne: "tok \<noteq> []"
    by (auto simp: ParseInt_def split: if_splits)
  then obtain c cs where tok: "tok = c # cs" by (cases tok) auto
  show ?thesis
  proof (cases "c = 43 \<or> c = 45")
    case True
    with assms tok obtain un where un: "ParseUint cs = Inr un"
      by (auto simp: ParseInt_def Let_def split: sum.splits)
    from ParseUint_Inr [OF un] have cs: "cs \<noteq> []" "\<forall>d \<in> set cs. is_digit d"
        "un = decimal_value cs"
      by auto
    have "tok = [c] @ cs \<and> ([c] = [] \<or> [c] = [43] \<or> [c] = [45]) \<and> cs \<noteq> []
           \<and> (\<forall>d \<in> set cs. is_digit d)
           \<and> i = (if [c] = [45] then - int (decimal_value cs) else int (decimal_value cs))
           \<and> (if [c] = [45] then decimal_value cs \<le> 2 ^ 63 else decimal_value cs < 2 ^ 63)"
      using assms tok True un cs
      by (auto simp: ParseInt_def Let_def split: if_splits)
    then show ?thesis by blast
  next
    case False
    with assms tok obtain un where un: "ParseUint tok = Inr un"
      by (auto simp: ParseInt_def Let_def split: sum.splits)
    from ParseUint_Inr [OF un] have cs: "\<forall>d \<in> set tok. is_digit d" "un = decimal_value tok"
      by auto
    have "tok = [] @ tok \<and> (([] :: rune list) = [] \<or> ([] :: rune list) = [43] \<or> ([] :: rune list) = [45])
           \<and> tok \<noteq> [] \<and> (\<forall>d \<in> set tok. is_digit d)
           \<and> i = (if ([] :: rune list) = [45] then - int (decimal_value tok)
                    else int (decimal_value tok))
           \<and> (if ([] :: rune list) = [45] then decimal_value tok \<le> 2 ^ 63
                else decimal_value tok < 2 ^ 63)"
      using assms tok False un cs ne
      by (auto simp: ParseInt_def Let_def split: if_splits)
    then show ?thesis by blast
  qed
qed

lemma takeWhile_digits_rest:
  assumes "takeWhile (\<lambda>r. r \<in> set (map of_char decimalDigits)) rs = ds"
  shows "rs = ds @ dropWhile (\<lambda>r. r \<in> set (map of_char decimalDigits)) rs"
    and "dropWhile (\<lambda>r. r \<in> set (map of_char decimalDigits)) rs = []
         \<or> \<not> is_digit (hd (dropWhile (\<lambda>r. r \<in> set (map of_char decimalDigits)) rs))"
proof -
  show "rs = ds @ dropWhile (\<lambda>r. r \<in> set (map of_char decimalDigits)) rs"
    using assms takeWhile_dropWhile_id [of _ rs] by metis
  show "dropWhile (\<lambda>r. r \<in> set (map of_char decimalDigits)) rs = []
         \<or> \<not> is_digit (hd (dropWhile (\<lambda>r. r \<in> set (map of_char decimalDigits)) rs))"
    using hd_dropWhile [of "\<lambda>r. r \<in> set (map of_char decimalDigits)" rs]
    by (auto simp: in_decimalDigits simp del: set_map)
qed

lemma scanInt_Inr:
  assumes "scanInt rs0 = Inr i"
  shows "\<exists>sp sg ds rest. rs0 = sp @ sg @ ds @ rest
           \<and> (\<forall>r \<in> set sp. isSpace r \<and> r \<noteq> 10)
           \<and> (sg = [] \<or> sg = [43] \<or> sg = [45]) \<and> ds \<noteq> []
           \<and> (\<forall>d \<in> set ds. is_digit d)
           \<and> (rest = [] \<or> \<not> is_digit (hd rest))
           \<and> i = (if sg = [45] then - int (decimal_value ds) else int (decimal_value ds))
           \<and> (if sg = [45] then decimal_value ds \<le> 2 ^ 63 else decimal_value ds < 2 ^ 63)"
proof -
  let ?P = "\<lambda>r. r \<in> set (map of_char decimalDigits)"
  from assms obtain rs where sk: "SkipSpace rs0 = Inr rs"
    by (auto simp: scanInt_def split: sum.splits)
  from SkipSpace_Inr [OF sk] obtain sp where sp: "rs0 = sp @ rs"
      "\<forall>r \<in> set sp. isSpace r \<and> r \<noteq> 10"
    by blast
  from assms sk have ne: "rs \<noteq> []"
    by (auto simp: scanInt_def split: if_splits)
  then obtain c cs where rs: "rs = c # cs" by (cases rs) auto
  define sg where "sg = (if c = 43 \<or> c = 45 then [c] else [])"
  define rs1 where "rs1 = (if c = 43 \<or> c = 45 then cs else rs)"
  have sgrs: "rs = sg @ rs1" and sgc: "sg = [] \<or> sg = [43] \<or> sg = [45]"
    by (auto simp: sg_def rs1_def rs)
  have acc: "accept sign rs = (c = 43 \<or> c = 45, sg, rs1)"
    by (auto simp: accept_def rs sg_def rs1_def in_sign simp del: set_map)
  from assms sk ne acc have ne1: "rs1 \<noteq> []"
    by (auto simp: scanInt_def split: if_splits)
  then obtain d rs2 where rs1: "rs1 = d # rs2" by (cases rs1) auto
  from assms sk ne acc ne1 have okd: "?P d"
    by (auto simp: scanInt_def accept_def rs1 split: if_splits simp del: set_map)
  then have acd: "accept decimalDigits rs1 = (True, [d], rs2)"
    by (simp add: accept_def rs1 del: set_map)
  have tokeq: "fst (accept_loop decimalDigits (sg @ [d]) rs2) = sg @ takeWhile ?P rs1"
    using okd by (simp add: accept_loop_takeWhile rs1 del: set_map)
  have pi: "ParseInt (sg @ takeWhile ?P rs1) = Inr i"
    using assms sk ne acc ne1 acd tokeq
    by (simp add: scanInt_def split_beta del: set_map)
  have tne: "takeWhile ?P rs1 \<noteq> []"
    using okd by (simp add: rs1 del: set_map)
  have hdt: "?P (hd (takeWhile ?P rs1))"
    using okd by (simp add: rs1 del: set_map)
  from ParseInt_Inr [OF pi] obtain sg' ds where p: "sg @ takeWhile ?P rs1 = sg' @ ds"
      "sg' = [] \<or> sg' = [43] \<or> sg' = [45]" "ds \<noteq> []" "\<forall>d \<in> set ds. is_digit d"
      "i = (if sg' = [45] then - int (decimal_value ds) else int (decimal_value ds))"
      "if sg' = [45] then decimal_value ds \<le> 2 ^ 63 else decimal_value ds < 2 ^ 63"
    by blast
  have notsign: "\<not> (hd (takeWhile ?P rs1) = 43 \<or> hd (takeWhile ?P rs1) = 45)"
    using hdt by (auto simp: in_decimalDigits is_digit_def simp del: set_map)
  have dsd: "is_digit (hd ds)" using p(3,4) by (cases ds) auto
  then have dns: "\<not> (hd ds = 43 \<or> hd ds = 45)" by (auto simp: is_digit_def)
  have same: "sg' = sg \<and> ds = takeWhile ?P rs1"
  proof (cases "sg = []")
    case True
    with p(1) tne notsign p(2) show ?thesis
      by (cases "takeWhile ?P rs1") auto
  next
    case False
    with sgc p(1,2,3) dns show ?thesis
      by (cases ds) auto
  qed
  then have tw: "takeWhile ?P rs1 = ds" by simp
  let ?rest = "dropWhile ?P rs1"
  have "rs0 = sp @ sg @ ds @ ?rest"
    using sp(1) sgrs takeWhile_digits_rest(1) [OF tw] by simp
  moreover have "?rest = [] \<or> \<not> is_digit (hd ?rest)"
    by (rule takeWhile_digits_rest(2) [OF tw])
  ultimately show ?thesis
    using sp(2) sgc p(3,4,5,6) same by blast
qed

lemma sint_of_int64:
  "- (2 ^ 63) \<le> k \<Longrightarrow> k < 2 ^ 63 \<Longrightarrow> sint (word_of_int k :: int64) = k"
  by (simp add: signed_of_int signed_take_bit_int_eq_self)

lemma Sscanf_d_ok:
  assumes "Sscanf_d data = (n, None, v)"
  shows "n = 1 \<and> (\<exists>sp sg ds rest. take hugeWid (runes data) = sp @ sg @ ds @ rest
           \<and> (\<forall>r \<in> set sp. isSpace r \<and> r \<noteq> 10)
           \<and> (sg = [] \<or> sg = [43] \<or> sg = [45]) \<and> ds \<noteq> []
           \<and> (\<forall>d \<in> set ds. is_digit d)
           \<and> (rest = [] \<or> \<not> is_digit (hd rest))
           \<and> v = word_of_int (if sg = [45] then - int (decimal_value ds)
                               else int (decimal_value ds))
           \<and> (if sg = [45] then decimal_value ds \<le> 2 ^ 63 else decimal_value ds < 2 ^ 63))"
proof -
  from assms obtain rs i where sk: "SkipSpace (take hugeWid (runes data)) = Inr rs"
      and sc: "scanInt rs = Inr i" and v: "v = word_of_int i" and n: "n = 1"
    by (auto simp: Sscanf_d_def split: sum.splits)
  from SkipSpace_Inr [OF sk] obtain sp1 where sp1: "take hugeWid (runes data) = sp1 @ rs"
      "\<forall>r \<in> set sp1. isSpace r \<and> r \<noteq> 10"
    by blast
  from scanInt_Inr [OF sc] obtain sp2 sg ds rest where s: "rs = sp2 @ sg @ ds @ rest"
      "\<forall>r \<in> set sp2. isSpace r \<and> r \<noteq> 10" "sg = [] \<or> sg = [43] \<or> sg = [45]" "ds \<noteq> []"
      "\<forall>d \<in> set ds. is_digit d" "rest = [] \<or> \<not> is_digit (hd rest)"
      "i = (if sg = [45] then - int (decimal_value ds) else int (decimal_value ds))"
      "if sg = [45] then decimal_value ds \<le> 2 ^ 63 else decimal_value ds < 2 ^ 63"
    by blast
  have "take hugeWid (runes data) = (sp1 @ sp2) @ sg @ ds @ rest"
    using sp1(1) s(1) by simp
  moreover have "\<forall>r \<in> set (sp1 @ sp2). isSpace r \<and> r \<noteq> 10"
    using sp1(2) s(2) by auto
  ultimately show ?thesis
    using n v s(3-8) by blast
qed

lemma LoadState_accepts:
  assumes "LoadState fs0 t = (None, t')" and "stateFilePath t \<noteq> []"
    and "ReadFile fs0 (stateFilePath t) = Inr data"
  shows "\<exists>sp sg ds rest. take hugeWid (runes data) = sp @ sg @ ds @ rest
           \<and> (\<forall>r \<in> set sp. isSpace r \<and> r \<noteq> 10)
           \<and> (sg = [] \<or> sg = [43] \<or> (sg = [45] \<and> decimal_value ds = 0))
           \<and> ds \<noteq> [] \<and> (\<forall>d \<in> set ds. is_digit d)
           \<and> (rest = [] \<or> \<not> is_digit (hd rest))
           \<and> decimal_value ds < 2 ^ 63
           \<and> t' = t\<lparr>lastOffset := word_of_nat (decimal_value ds)\<rparr>"
proof -
  from assms obtain n v where sc: "Sscanf_d data = (n, None, v)" and nonneg: "\<not> v <s 0"
      and t': "t' = t\<lparr>lastOffset := v\<rparr>"
    by (auto simp: LoadState_def Let_def split: prod.splits option.splits if_splits)
  from Sscanf_d_ok [OF sc] obtain sp sg ds rest where
      s: "take hugeWid (runes data) = sp @ sg @ ds @ rest"
      "\<forall>r \<in> set sp. isSpace r \<and> r \<noteq> 10" "sg = [] \<or> sg = [43] \<or> sg = [45]" "ds \<noteq> []"
      "\<forall>d \<in> set ds. is_digit d" "rest = [] \<or> \<not> is_digit (hd rest)"
      and v: "v = word_of_int (if sg = [45] then - int (decimal_value ds)
                               else int (decimal_value ds))"
      and r: "if sg = [45] then decimal_value ds \<le> 2 ^ 63 else decimal_value ds < 2 ^ 63"
    by blast
  have "(sg = [] \<or> sg = [43] \<or> (sg = [45] \<and> decimal_value ds = 0))
        \<and> decimal_value ds < 2 ^ 63 \<and> v = word_of_nat (decimal_value ds)"
  proof (cases "sg = [45]")
    case True
    with r have le: "decimal_value ds \<le> 2 ^ 63" by simp
    have "v = word_of_int (- int (decimal_value ds))"
      using v True by simp
    moreover have "sint (word_of_int (- int (decimal_value ds)) :: int64)
                   = - int (decimal_value ds)"
      using le by (intro sint_of_int64) auto
    ultimately have "sint v = - int (decimal_value ds)"
      by (simp only:)
    with nonneg have "decimal_value ds = 0"
      by (simp add: word_sless_alt)
    with True v show ?thesis by simp
  next
    case False
    with r s(3) v show ?thesis by auto
  qed
  with s t' show ?thesis by blast
qed

lemma LoadState_decimal:
  assumes "n < 2 ^ 63"
    and "runes rest = [] \<or> \<not> is_digit (hd (runes rest))"
    and "stateFilePath t \<noteq> []" and "ReadFile fs0 (stateFilePath t) = Inr (decimal n @ rest)"
  shows "LoadState fs0 t = (None, t\<lparr>lastOffset := word_of_nat n\<rparr>)"
proof -
  have "sint (word_of_nat n :: int64) = int n"
    using assms(1) by (rule sint_of_nat64)
  then have "\<not> (word_of_nat n :: int64) <s 0"
    by (simp add: word_sless_alt)
  then show ?thesis
    using assms(3,4) Sscanf_d_decimal [OF assms(1,2)]
    by (simp add: LoadState_def)
qed

section \<open>The claims\<close>

text \<open>
  C2. A buffer made of complete lines \<open>ls\<close>, each followed by its newline, and a rest
  \<open>p\<close> without newline yields exactly the lines \<open>ls\<close>, in order and without their
  newlines; the offset advances by the length of each line plus one, and the bytes of
  \<open>p\<close> are neither emitted nor counted. Every buffer has this form. Consequently, for
  both readers polling a well-behaved server from the offset that follows the bytes \<open>pre\<close>
  already consumed: while the file ends in the unterminated \<open>p\<close> the poll emits \<open>ls\<close>
  only, and once the file has grown by \<open>q\<close> and a newline the next poll emits the single
  line \<open>p @ q\<close>, and the offset is then the length of the file.
\<close>

theorem lines_complete_and_emitted_once:
  "((\<forall>l \<in> set ls. CHR 0x0A \<notin> set l) \<and> CHR 0x0A \<notin> set p
    \<longrightarrow> extract_loop (terminated ls @ p) [] off
          = (ls, off + word_of_nat (length (terminated ls))))
   \<and> (\<forall>body. \<exists>ls' rest. body = terminated ls' @ rest
          \<and> (\<forall>l \<in> set ls'. CHR 0x0A \<notin> set l) \<and> CHR 0x0A \<notin> set rest)
   \<and> ((\<forall>l \<in> set ls. CHR 0x0A \<notin> set l) \<and> CHR 0x0A \<notin> set p \<and> CHR 0x0A \<notin> set q
        \<and> length (pre @ terminated ls @ p @ q @ nlByte) < 2 ^ 63
        \<and> lastOffset ht = word_of_nat (length pre)
    \<longrightarrow> (\<exists>d1 ht1 d2 ht2.
            HttpFetchNewLines (http_serving (pre @ terminated ls @ p)) ht = (Inr ls, d1, ht1)
          \<and> lastOffset ht1 = word_of_nat (length (pre @ terminated ls))
          \<and> HttpFetchNewLines (http_serving (pre @ terminated ls @ p @ q @ nlByte)) ht1
              = (Inr [p @ q], d2, ht2)
          \<and> lastOffset ht2 = word_of_nat (length (pre @ terminated ls @ p @ q @ nlByte))))
   \<and> ((\<forall>l \<in> set ls. CHR 0x0A \<notin> set l) \<and> CHR 0x0A \<notin> set p \<and> CHR 0x0A \<notin> set q
        \<and> length (pre @ terminated ls @ p @ q @ nlByte) < 2 ^ 63
        \<and> lastOffset st = word_of_nat (length pre)
    \<longrightarrow> (\<exists>st1 st2.
            SftpFetchNewLines (sftp_serving (pre @ terminated ls @ p)) st = (Inr ls, [], st1)
          \<and> lastOffset st1 = word_of_nat (length (pre @ terminated ls))
          \<and> SftpFetchNewLines (sftp_serving (pre @ terminated ls @ p @ q @ nlByte)) st1
              = (Inr [p @ q], [], st2)
          \<and> lastOffset st2 = word_of_nat (length (pre @ terminated ls @ p @ q @ nlByte))))"
proof -
  let ?F1 = "pre @ terminated ls @ p"
  let ?pre2 = "pre @ terminated ls"
  let ?F2 = "pre @ terminated ls @ p @ q @ nlByte"
  have a: "extract_loop (terminated ls @ p) [] off
           = (ls, off + word_of_nat (length (terminated ls)))"
    if "\<forall>l \<in> set ls. CHR 0x0A \<notin> set l" "CHR 0x0A \<notin> set p"
    using extract_loop_terminated [OF that, of "[]" off] by simp
  have b: "\<forall>body. \<exists>ls' rest. body = terminated ls' @ rest
              \<and> (\<forall>l \<in> set ls'. CHR 0x0A \<notin> set l) \<and> CHR 0x0A \<notin> set rest"
    using buffer_decomposition by blast
  have c: "\<exists>d1 ht1 d2 ht2.
              HttpFetchNewLines (http_serving ?F1) ht = (Inr ls, d1, ht1)
            \<and> lastOffset ht1 = word_of_nat (length ?pre2)
            \<and> HttpFetchNewLines (http_serving ?F2) ht1 = (Inr [p @ q], d2, ht2)
            \<and> lastOffset ht2 = word_of_nat (length ?F2)"
    if ls: "\<forall>l \<in> set ls. CHR 0x0A \<notin> set l" and p: "CHR 0x0A \<notin> set p"
      and q: "CHR 0x0A \<notin> set q" and len: "length ?F2 < 2 ^ 63"
      and hoff: "lastOffset ht = word_of_nat (length pre)"
  proof -
    have pq: "\<forall>l \<in> set [p @ q]. CHR 0x0A \<notin> set l" using p q by simp
    have len1: "length ?F1 < 2 ^ 63" using len by simp
    have len2: "length (?pre2 @ terminated [p @ q] @ []) < 2 ^ 63" using len by simp
    obtain d1 ht1 where h1: "HttpFetchNewLines (http_serving ?F1) ht = (Inr ls, d1, ht1)"
        and ho1: "lastOffset ht1 = word_of_nat (length ?pre2)"
      using http_poll [OF ls p len1 hoff] by blast
    obtain d2 ht2 where
        h2: "HttpFetchNewLines (http_serving (?pre2 @ terminated [p @ q] @ [])) ht1
             = (Inr [p @ q], d2, ht2)"
        and ho2: "lastOffset ht2 = word_of_nat (length (?pre2 @ terminated [p @ q]))"
      using http_poll [OF pq _ len2 ho1] by auto
    show ?thesis
      using h1 ho1 h2 ho2
      by (intro exI [of _ d1] exI [of _ ht1] exI [of _ d2] exI [of _ ht2]) simp
  qed
  have d: "\<exists>st1 st2.
              SftpFetchNewLines (sftp_serving ?F1) st = (Inr ls, [], st1)
            \<and> lastOffset st1 = word_of_nat (length ?pre2)
            \<and> SftpFetchNewLines (sftp_serving ?F2) st1 = (Inr [p @ q], [], st2)
            \<and> lastOffset st2 = word_of_nat (length ?F2)"
    if ls: "\<forall>l \<in> set ls. CHR 0x0A \<notin> set l" and p: "CHR 0x0A \<notin> set p"
      and q: "CHR 0x0A \<notin> set q" and len: "length ?F2 < 2 ^ 63"
      and soff: "lastOffset st = word_of_nat (length pre)"
  proof -
    have pq: "\<forall>l \<in> set [p @ q]. CHR 0x0A \<notin> set l" using p q by simp
    have len1: "length ?F1 < 2 ^ 63" using len by simp
    have len2: "length (?pre2 @ terminated [p @ q] @ []) < 2 ^ 63" using len by simp
    obtain st1 where s1: "SftpFetchNewLines (sftp_serving ?F1) st = (Inr ls, [], st1)"
        and so1: "lastOffset st1 = word_of_nat (length ?pre2)"
      using sftp_poll [OF ls p len1 soff] by blast
    obtain st2 where
        s2: "SftpFetchNewLines (sftp_serving (?pre2 @ terminated [p @ q] @ [])) st1
             = (Inr [p @ q], [], st2)"
        and so2: "lastOffset st2 = word_of_nat (length (?pre2 @ terminated [p @ q]))"
      using sftp_poll [OF pq _ len2 so1] by auto
    show ?thesis
      using s1 so1 s2 so2 by (intro exI [of _ st1] exI [of _ st2]) simp
  qed
  from a b c d show ?thesis by blast
qed

theorem lines_complete_and_emitted_once_witness:
  "extract_loop ''foo\<newline>bar\<newline>ba'' [] 0 = ([''foo'', ''bar''], 8)
   \<and> (\<exists>d1 ht1 d2 ht2.
         HttpFetchNewLines (http_serving ''foo\<newline>bar\<newline>ba'') (NewHttpTailer ''u'' 5 [])
           = (Inr [''foo'', ''bar''], d1, ht1)
       \<and> lastOffset ht1 = 8
       \<and> HttpFetchNewLines (http_serving ''foo\<newline>bar\<newline>baz\<newline>'') ht1
           = (Inr [''baz''], d2, ht2)
       \<and> lastOffset ht2 = 12)"
  using lines_complete_and_emitted_once
    [where ls = "[''foo'', ''bar'']" and p = "''ba''" and q = "''z''" and pre = "[]"
       and ht = "NewHttpTailer ''u'' 5 []" and off = 0
       and st = "NewSftpTailer ''h'' ''u'' ''p'' ''f'' 5 []"]
  by (simp add: nlByte_def NewHttpTailer_def NewSftpTailer_def)


text \<open>
  C3. With a stored offset greater than 0 and a server that answers 200 with the whole
  content, the HTTP reader discards exactly \<open>lastOffset\<close> leading bytes of the body
  before splitting lines, writes the range warning only if \<open>rangeNotSupported\<close> was
  unset, and sets it. Over any run of the polling loop, whatever the servers answer, an
  HTTP reader adds at most one range warning to standard error, and none once the flag
  is set.
\<close>

theorem http_full_fetch_fallback:
  "(0 <s lastOffset t \<and> \<not> NewRequestFails env
      \<and> Do env (Some (lastOffset t - 1)) = Some \<lparr>StatusCode = 200, Body = Some body\<rparr>
    \<longrightarrow> HttpFetchNewLines env t =
          (Inr (fst (extract_loop (drop (nat (sint (lastOffset t))) body) [] (lastOffset t))),
           (if rangeNotSupported t then [] else [MsgRangeNotSupported])
             @ (if body = [] then [MsgEmptyResponse] else []),
           t\<lparr>rangeNotSupported := True,
             lastOffset := snd (extract_loop (drop (nat (sint (lastOffset t))) body) []
                                 (lastOffset t))\<rparr>))
   \<and> (tailer s = HttpT t
    \<longrightarrow> count_list (stderr (main_loop envs s)) MsgRangeNotSupported
          \<le> count_list (stderr s) MsgRangeNotSupported + (if rangeNotSupported t then 0 else 1))"
proof (intro conjI impI)
  assume "0 <s lastOffset t \<and> \<not> NewRequestFails env
      \<and> Do env (Some (lastOffset t - 1)) = Some \<lparr>StatusCode = 200, Body = Some body\<rparr>"
  then show "HttpFetchNewLines env t =
          (Inr (fst (extract_loop (drop (nat (sint (lastOffset t))) body) [] (lastOffset t))),
           (if rangeNotSupported t then [] else [MsgRangeNotSupported])
             @ (if body = [] then [MsgEmptyResponse] else []),
           t\<lparr>rangeNotSupported := True,
             lastOffset := snd (extract_loop (drop (nat (sint (lastOffset t))) body) []
                                 (lastOffset t))\<rparr>)"
    using http_200_fallback [of t env body] by blast
next
  assume "tailer s = HttpT t"
  then show "count_list (stderr (main_loop envs s)) MsgRangeNotSupported
          \<le> count_list (stderr s) MsgRangeNotSupported + (if rangeNotSupported t then 0 else 1)"
    using main_loop_warning_count [of envs s] by simp
qed

theorem http_full_fetch_fallback_witness:
  "HttpFetchNewLines (http_answering 200 ''foo\<newline>bar\<newline>'')
       ((NewHttpTailer ''u'' 5 [])\<lparr>lastOffset := 4\<rparr>)
     = (Inr [''bar''], [MsgRangeNotSupported],
        (NewHttpTailer ''u'' 5 [])\<lparr>rangeNotSupported := True, lastOffset := 8\<rparr>)
   \<and> count_list
         (stderr (main_loop
            [\<lparr>http = http_answering 200 ''foo\<newline>bar\<newline>'', sftp = sftp_serving []\<rparr>,
             \<lparr>http = http_answering 200 ''foo\<newline>bar\<newline>'', sftp = sftp_serving []\<rparr>]
            \<lparr>tailer = HttpT ((NewHttpTailer ''u'' 5 [])\<lparr>lastOffset := 4\<rparr>),
             disk = single_file [] [], stdout = [], stderr = []\<rparr>))
         MsgRangeNotSupported \<le> 1"
  using http_full_fetch_fallback
    [of "(NewHttpTailer ''u'' 5 [])\<lparr>lastOffset := 4\<rparr>"
        "http_answering 200 ''foo\<newline>bar\<newline>''" "''foo\<newline>bar\<newline>''"
        "\<lparr>tailer = HttpT ((NewHttpTailer ''u'' 5 [])\<lparr>lastOffset := 4\<rparr>),
          disk = single_file [] [], stdout = [], stderr = []\<rparr>"
        "[\<lparr>http = http_answering 200 ''foo\<newline>bar\<newline>'', sftp = sftp_serving []\<rparr>,
          \<lparr>http = http_answering 200 ''foo\<newline>bar\<newline>'', sftp = sftp_serving []\<rparr>]"]
  by (simp add: NewHttpTailer_def http_answering_def word_sless_alt extract_loop.simps
        nlByte_def)

text \<open>
  C8. A fetch whose buffer is empty once \<open>skipBytes\<close> is accounted for returns zero
  lines and no error and leaves the offset as it was. For the HTTP reader: an accepted
  response (200, or 206 to a range request) whose body is empty, or no longer than the
  one overlap byte after 206, or no longer than the stored offset after 200. For the SFTP
  reader, when the file has not shrunk: a size equal to the offset, or a read that yields
  no bytes.
\<close>

theorem empty_buffer_no_lines_offset_unchanged:
  "(\<not> NewRequestFails env
      \<and> Do env (if 0 <s lastOffset t then Some (lastOffset t - 1) else None) = Some resp
      \<and> (StatusCode resp = 200 \<or> (StatusCode resp = 206 \<and> 0 <s lastOffset t))
      \<and> Body resp = Some body
      \<and> (body = []
          \<or> (0 <s lastOffset t \<and> StatusCode resp = 206 \<and> length body \<le> 1)
          \<or> (0 <s lastOffset t \<and> StatusCode resp = 200
               \<and> int (length body) \<le> sint (lastOffset t)))
    \<longrightarrow> fst (HttpFetchNewLines env t) = Inr []
        \<and> lastOffset (snd (snd (HttpFetchNewLines env t))) = lastOffset t)
   \<and> ((client st \<or> (DialOk senv \<and> NewClientOk senv)) \<and> OpenOk senv
      \<and> StatSize senv = Some sz \<and> \<not> sz <s lastOffset st
      \<and> (sz = lastOffset st
          \<or> (SeekOk senv (lastOffset st) \<and> ReadAll senv (lastOffset st) = Some []))
    \<longrightarrow> fst (SftpFetchNewLines senv st) = Inr []
        \<and> lastOffset (snd (snd (SftpFetchNewLines senv st))) = lastOffset st)"
  using http_empty_buffer [of env t resp body] sftp_empty_buffer [of st senv sz]
  by blast


theorem empty_buffer_no_lines_offset_unchanged_witness:
  "fst (HttpFetchNewLines (http_serving ''foo\<newline>'') ((NewHttpTailer ''u'' 5 [])\<lparr>lastOffset := 4\<rparr>))
     = Inr []
   \<and> lastOffset (snd (snd (HttpFetchNewLines (http_serving ''foo\<newline>'')
                              ((NewHttpTailer ''u'' 5 [])\<lparr>lastOffset := 4\<rparr>)))) = 4
   \<and> fst (SftpFetchNewLines (sftp_serving ''foo\<newline>'')
            ((NewSftpTailer ''h'' ''u'' ''p'' ''f'' 5 [])\<lparr>lastOffset := 4\<rparr>)) = Inr []
   \<and> lastOffset (snd (snd (SftpFetchNewLines (sftp_serving ''foo\<newline>'')
            ((NewSftpTailer ''h'' ''u'' ''p'' ''f'' 5 [])\<lparr>lastOffset := 4\<rparr>)))) = 4"
  using empty_buffer_no_lines_offset_unchanged
    [of "http_serving ''foo\<newline>''" "(NewHttpTailer ''u'' 5 [])\<lparr>lastOffset := 4\<rparr>"
        "\<lparr>StatusCode = 206, Body = Some ''\<newline>''\<rparr>" "''\<newline>''"
        "(NewSftpTailer ''h'' ''u'' ''p'' ''f'' 5 [])\<lparr>lastOffset := 4\<rparr>"
        "sftp_serving ''foo\<newline>''" 4]
  by (simp add: NewHttpTailer_def NewSftpTailer_def http_serving_def sftp_serving_def
        word_sless_alt)

text \<open>
  C5 (as amended). In a cycle in which \<open>FetchNewLines\<close> returns an error the controller
  writes no checkpoint and prints no line. The offset in memory is the one before the
  call, except in the SFTP reader when the size reported was smaller than the offset: the
  offset was then reset to 0 before a later step of the same call, the read, failed.
\<close>

theorem fetch_error_offset_and_checkpoint:
  assumes "FetchNewLines env (tailer s) = (Inl e, d, T')"
  shows "disk (main_cycle env s) = disk s
       \<and> stdout (main_cycle env s) = stdout s
       \<and> tailer (main_cycle env s) = T'
       \<and> (offset_of T' = offset_of (tailer s)
           \<or> (\<exists>t sz. tailer s = SftpT t \<and> StatSize (sftp env) = Some sz
                 \<and> sz <s lastOffset t \<and> offset_of T' = 0))"
proof -
  have ctl: "disk (main_cycle env s) = disk s \<and> stdout (main_cycle env s) = stdout s
             \<and> tailer (main_cycle env s) = T'"
    using assms by (simp add: main_cycle_def)
  have off: "offset_of T' = offset_of (tailer s)
           \<or> (\<exists>t sz. tailer s = SftpT t \<and> StatSize (sftp env) = Some sz
                 \<and> sz <s lastOffset t \<and> offset_of T' = 0)"
  proof (cases "tailer s")
    case (HttpT t)
    with assms obtain t' where "HttpFetchNewLines (http env) t = (Inl e, d, t')" "T' = HttpT t'"
      by (auto split: prod.splits)
    with HttpT http_error_keeps_offset show ?thesis by auto
  next
    case (SftpT t)
    with assms obtain t' where "SftpFetchNewLines (sftp env) t = (Inl e, d, t')" "T' = SftpT t'"
      by (auto split: prod.splits)
    with SftpT sftp_error_offset [of "sftp env" t e d t'] show ?thesis by auto
  qed
  from ctl off show ?thesis by blast
qed

theorem fetch_error_offset_and_checkpoint_witness:
  "disk (main_cycle \<lparr>http = http_unreachable, sftp = sftp_serving []\<rparr>
           \<lparr>tailer = HttpT ((NewHttpTailer ''u'' 5 ''ckpt'')\<lparr>lastOffset := 4\<rparr>),
            disk = single_file ''ckpt'' ''4'', stdout = [], stderr = []\<rparr>)
     = single_file ''ckpt'' ''4''
   \<and> tailer (main_cycle \<lparr>http = http_unreachable, sftp = sftp_serving []\<rparr>
           \<lparr>tailer = HttpT ((NewHttpTailer ''u'' 5 ''ckpt'')\<lparr>lastOffset := 4\<rparr>),
            disk = single_file ''ckpt'' ''4'', stdout = [], stderr = []\<rparr>)
     = HttpT ((NewHttpTailer ''u'' 5 ''ckpt'')\<lparr>lastOffset := 4\<rparr>)"
  using fetch_error_offset_and_checkpoint
    [of "\<lparr>http = http_unreachable, sftp = sftp_serving []\<rparr>"
        "\<lparr>tailer = HttpT ((NewHttpTailer ''u'' 5 ''ckpt'')\<lparr>lastOffset := 4\<rparr>),
          disk = single_file ''ckpt'' ''4'', stdout = [], stderr = []\<rparr>"
        ClientDoError "[]" "HttpT ((NewHttpTailer ''u'' 5 ''ckpt'')\<lparr>lastOffset := 4\<rparr>)"]
  by (simp add: HttpFetchNewLines_def http_unreachable_def)

text \<open>
  C5 as stated fails for the SFTP reader: with offset 10 and a file of 3 bytes the
  offset is reset to 0, and when the read then fails the call returns an error with the
  offset changed from 10 to 0.
\<close>

theorem sftp_error_after_truncation_changes_offset:
  "lastOffset ((NewSftpTailer ''h'' ''u'' ''p'' ''f'' 5 [])\<lparr>lastOffset := 10\<rparr>) = 10
   \<and> fst (SftpFetchNewLines (sftp_read_failing ''ab\<newline>'')
            ((NewSftpTailer ''h'' ''u'' ''p'' ''f'' 5 [])\<lparr>lastOffset := 10\<rparr>))
       = Inl (FailedToRead 0)
   \<and> lastOffset (snd (snd (SftpFetchNewLines
            (sftp_read_failing ''ab\<newline>'')
            ((NewSftpTailer ''h'' ''u'' ''p'' ''f'' 5 [])\<lparr>lastOffset := 10\<rparr>)))) = 0"
  by (simp add: SftpFetchNewLines_def NewSftpTailer_def sftp_serving_def sftp_read_failing_def
        connect_def disconnect_def word_sless_alt)

text \<open>
  C10. Whenever \<open>LoadState\<close> returns an error the reader is exactly as before the call,
  its offset included: for a file that cannot be read, for content that \<open>Sscanf\<close>
  rejects, and for a negative value. When it returns no error only the offset has been
  assigned.
\<close>

theorem LoadState_error_keeps_offset:
  "(fst (LoadState fs t) \<noteq> None \<longrightarrow> snd (LoadState fs t) = t)
   \<and> (fst (LoadState fs t) = None \<longrightarrow> (\<exists>v. snd (LoadState fs t) = t\<lparr>lastOffset := v\<rparr>))
   \<and> (stateFilePath t \<noteq> [] \<and> ReadFile fs (stateFilePath t) = Inl ErrOtherRead
        \<longrightarrow> LoadState fs t = (Some CouldNotReadCheckpoint, t))
   \<and> (\<forall>data e. stateFilePath t \<noteq> [] \<and> ReadFile fs (stateFilePath t) = Inr data
          \<and> fst (snd (Sscanf_d data)) = Some e
        \<longrightarrow> LoadState fs t = (Some (ScanFailed e), t))
   \<and> (\<forall>data v. stateFilePath t \<noteq> [] \<and> ReadFile fs (stateFilePath t) = Inr data
          \<and> Sscanf_d data = (1, None, v) \<and> v <s 0
        \<longrightarrow> LoadState fs t = (Some (InvalidOffset v), t))"
  by (auto simp: LoadState_def Let_def split: sum.splits prod.splits option.splits if_splits)

theorem LoadState_error_keeps_offset_witness:
  "LoadState (single_file ''ckpt'' ''-5'') (NewHttpTailer ''u'' 5 ''ckpt'')
     = (Some (InvalidOffset (-5)), NewHttpTailer ''u'' 5 ''ckpt'')
   \<and> LoadState (single_file ''ckpt'' ''x'') ((NewHttpTailer ''u'' 5 ''ckpt'')\<lparr>lastOffset := 7\<rparr>)
     = (Some (ScanFailed ExpectedInteger), (NewHttpTailer ''u'' 5 ''ckpt'')\<lparr>lastOffset := 7\<rparr>)"
  using LoadState_error_keeps_offset
          [of "single_file ''ckpt'' ''-5''" "NewHttpTailer ''u'' 5 ''ckpt''"]
        LoadState_error_keeps_offset
          [of "single_file ''ckpt'' ''x''" "(NewHttpTailer ''u'' 5 ''ckpt'')\<lparr>lastOffset := 7\<rparr>"]
  by (simp add: single_file_def NewHttpTailer_def ReadFile_def scan_defs word_sless_alt)


text \<open>
  C1 (as amended). On HTTP status 416 \<open>FetchNewLines\<close> emits no line, returns no error
  and sets the offset to 0; the controller prints nothing and, where a checkpoint path is
  configured and the write succeeds, persists 0. On an SFTP poll whose reported size is
  smaller than the offset the reader sets the offset to 0 and goes on in the same call:
  for an empty file it emits no line and 0 is persisted; otherwise it reads the file from
  byte 0, emits the complete lines read, and the offset persisted is the one the
  extraction reaches from 0.
\<close>

theorem truncation_resets_offset:
  "(tailer s = HttpT t \<and> \<not> NewRequestFails (http nenv)
      \<and> Do (http nenv) (if 0 <s lastOffset t then Some (lastOffset t - 1) else None) = Some resp
      \<and> StatusCode resp = 416
    \<longrightarrow> FetchNewLines nenv (tailer s)
          = (Inr [], [MsgHttpTruncated], HttpT (t\<lparr>lastOffset := 0\<rparr>))
        \<and> stdout (main_cycle nenv s) = stdout s
        \<and> offset_of (tailer (main_cycle nenv s)) = 0
        \<and> (stateFilePath t \<noteq> [] \<and> \<not> writeFails (disk s) (stateFilePath t)
             \<longrightarrow> files (disk (main_cycle nenv s)) (stateFilePath t) = Some ''0\<newline>''))
   \<and> (tailer s = SftpT st \<and> (client st \<or> (DialOk (sftp nenv) \<and> NewClientOk (sftp nenv)))
      \<and> OpenOk (sftp nenv) \<and> StatSize (sftp nenv) = Some sz \<and> sz <s lastOffset st \<and> sz = 0
    \<longrightarrow> fst (FetchNewLines nenv (tailer s)) = Inr []
        \<and> stdout (main_cycle nenv s) = stdout s
        \<and> offset_of (tailer (main_cycle nenv s)) = 0
        \<and> (stateFilePath st \<noteq> [] \<and> \<not> writeFails (disk s) (stateFilePath st)
             \<longrightarrow> files (disk (main_cycle nenv s)) (stateFilePath st) = Some ''0\<newline>''))
   \<and> (tailer s = SftpT st \<and> (client st \<or> (DialOk (sftp nenv) \<and> NewClientOk (sftp nenv)))
      \<and> OpenOk (sftp nenv) \<and> StatSize (sftp nenv) = Some sz \<and> sz <s lastOffset st \<and> sz \<noteq> 0
      \<and> SeekOk (sftp nenv) 0 \<and> ReadAll (sftp nenv) 0 = Some body
    \<longrightarrow> fst (FetchNewLines nenv (tailer s)) = Inr (fst (extract_loop body [] 0))
        \<and> stdout (main_cycle nenv s) = stdout s @ fst (extract_loop body [] 0)
        \<and> offset_of (tailer (main_cycle nenv s)) = snd (extract_loop body [] 0)
        \<and> (stateFilePath st \<noteq> [] \<and> \<not> writeFails (disk s) (stateFilePath st)
             \<longrightarrow> files (disk (main_cycle nenv s)) (stateFilePath st)
                  = Some (Sprintf_d (snd (extract_loop body [] 0)) @ nlByte)))"
proof (intro conjI impI; (elim conjE)?)
  assume a: "tailer s = HttpT t" "\<not> NewRequestFails (http nenv)"
    "Do (http nenv) (if 0 <s lastOffset t then Some (lastOffset t - 1) else None) = Some resp"
    "StatusCode resp = 416"
  have f: "FetchNewLines nenv (tailer s)
           = (Inr [], [MsgHttpTruncated], HttpT (t\<lparr>lastOffset := 0\<rparr>))"
    using a http_416 [of "http nenv" t resp] by simp
  show "FetchNewLines nenv (tailer s)
           = (Inr [], [MsgHttpTruncated], HttpT (t\<lparr>lastOffset := 0\<rparr>))"
    by (rule f)
  show "stdout (main_cycle nenv s) = stdout s"
    using f by (simp add: main_cycle_def split: prod.splits)
  show "offset_of (tailer (main_cycle nenv s)) = 0"
    using f by (simp add: main_cycle_def split: prod.splits)
  assume "stateFilePath t \<noteq> []" "\<not> writeFails (disk s) (stateFilePath t)"
  then show "files (disk (main_cycle nenv s)) (stateFilePath t) = Some ''0\<newline>''"
    using main_cycle_persists [OF f] Sprintf_d_0_nl by simp
next
  assume a: "tailer s = SftpT st" "client st \<or> (DialOk (sftp nenv) \<and> NewClientOk (sftp nenv))"
    "OpenOk (sftp nenv)" "StatSize (sftp nenv) = Some sz" "sz <s lastOffset st" "sz = 0"
  let ?t' = "st\<lparr>lastOffset := 0, client := True, sshClient := (sshClient st \<or> \<not> client st)\<rparr>"
  have f: "FetchNewLines nenv (tailer s) = (Inr [], [MsgFileTruncated], SftpT ?t')"
    using a sftp_truncated(1) [of st "sftp nenv" sz] by simp
  show "fst (FetchNewLines nenv (tailer s)) = Inr []"
    using f by simp
  show "stdout (main_cycle nenv s) = stdout s"
    using f by (simp add: main_cycle_def split: prod.splits)
  show "offset_of (tailer (main_cycle nenv s)) = 0"
    using f by (simp add: main_cycle_def split: prod.splits)
  assume "stateFilePath st \<noteq> []" "\<not> writeFails (disk s) (stateFilePath st)"
  then show "files (disk (main_cycle nenv s)) (stateFilePath st) = Some ''0\<newline>''"
    using main_cycle_persists [OF f] Sprintf_d_0_nl by simp
next
  assume a: "tailer s = SftpT st" "client st \<or> (DialOk (sftp nenv) \<and> NewClientOk (sftp nenv))"
    "OpenOk (sftp nenv)" "StatSize (sftp nenv) = Some sz" "sz <s lastOffset st" "sz \<noteq> 0"
    "SeekOk (sftp nenv) 0" "ReadAll (sftp nenv) 0 = Some body"
  let ?t' = "st\<lparr>lastOffset := snd (extract_loop body [] 0), client := True,
                 sshClient := (sshClient st \<or> \<not> client st)\<rparr>"
  have f: "FetchNewLines nenv (tailer s)
           = (Inr (fst (extract_loop body [] 0)), [MsgFileTruncated], SftpT ?t')"
    using a sftp_truncated(2) [of st "sftp nenv" sz body] by simp
  show "fst (FetchNewLines nenv (tailer s)) = Inr (fst (extract_loop body [] 0))"
    using f by simp
  show "stdout (main_cycle nenv s) = stdout s @ fst (extract_loop body [] 0)"
    using f by (simp add: main_cycle_def split: prod.splits)
  show "offset_of (tailer (main_cycle nenv s)) = snd (extract_loop body [] 0)"
    using f by (simp add: main_cycle_def split: prod.splits)
  assume "stateFilePath st \<noteq> []" "\<not> writeFails (disk s) (stateFilePath st)"
  then show "files (disk (main_cycle nenv s)) (stateFilePath st)
                  = Some (Sprintf_d (snd (extract_loop body [] 0)) @ nlByte)"
    using main_cycle_persists [OF f] by simp
qed


theorem truncation_resets_offset_witness:
  "stdout (main_cycle \<lparr>http = http_serving ''ab\<newline>'', sftp = sftp_serving []\<rparr>
            \<lparr>tailer = HttpT ((NewHttpTailer ''u'' 5 ''ckpt'')\<lparr>lastOffset := 10\<rparr>),
             disk = single_file ''ckpt'' ''10\<newline>'', stdout = [], stderr = []\<rparr>) = []
   \<and> files (disk (main_cycle \<lparr>http = http_serving ''ab\<newline>'', sftp = sftp_serving []\<rparr>
            \<lparr>tailer = HttpT ((NewHttpTailer ''u'' 5 ''ckpt'')\<lparr>lastOffset := 10\<rparr>),
             disk = single_file ''ckpt'' ''10\<newline>'', stdout = [], stderr = []\<rparr>)) ''ckpt''
       = Some ''0\<newline>''
   \<and> files (disk (main_cycle \<lparr>http = http_serving ''ab\<newline>'', sftp = sftp_serving []\<rparr>
            \<lparr>tailer = SftpT ((NewSftpTailer ''h'' ''u'' ''p'' ''f'' 5 ''ckpt'')\<lparr>lastOffset := 10\<rparr>),
             disk = single_file ''ckpt'' ''10\<newline>'', stdout = [], stderr = []\<rparr>)) ''ckpt''
       = Some ''0\<newline>''
   \<and> offset_of (tailer (main_cycle
            \<lparr>http = http_serving ''ab\<newline>'', sftp = sftp_serving ''ab\<newline>''\<rparr>
            \<lparr>tailer = SftpT ((NewSftpTailer ''h'' ''u'' ''p'' ''f'' 5 ''ckpt'')\<lparr>lastOffset := 10\<rparr>),
             disk = single_file ''ckpt'' ''10\<newline>'', stdout = [], stderr = []\<rparr>)) = 3"
proof -
  let ?nenv2 = "\<lparr>http = http_serving ''ab\<newline>'', sftp = sftp_serving ''ab\<newline>''\<rparr>"
  let ?nenv = "\<lparr>http = http_serving ''ab\<newline>'', sftp = sftp_serving []\<rparr>"
  let ?ht = "(NewHttpTailer ''u'' 5 ''ckpt'')\<lparr>lastOffset := 10\<rparr>"
  let ?st = "(NewSftpTailer ''h'' ''u'' ''p'' ''f'' 5 ''ckpt'')\<lparr>lastOffset := 10\<rparr>"
  let ?hs = "\<lparr>tailer = HttpT ?ht, disk = single_file ''ckpt'' ''10\<newline>'',
              stdout = [], stderr = []\<rparr>"
  let ?ss = "\<lparr>tailer = SftpT ?st, disk = single_file ''ckpt'' ''10\<newline>'',
              stdout = [], stderr = []\<rparr>"
  have h: "tailer ?hs = HttpT ?ht \<and> \<not> NewRequestFails (http ?nenv)
      \<and> Do (http ?nenv) (if 0 <s lastOffset ?ht then Some (lastOffset ?ht - 1) else None)
          = Some \<lparr>StatusCode = 416, Body = Some []\<rparr>
      \<and> StatusCode \<lparr>StatusCode = 416, Body = Some []\<rparr> = 416"
    by (simp add: NewHttpTailer_def http_serving_def word_sless_alt)
  have hp: "stateFilePath ?ht \<noteq> [] \<and> \<not> writeFails (disk ?hs) (stateFilePath ?ht)"
    by (simp add: NewHttpTailer_def single_file_def)
  have s: "tailer ?ss = SftpT ?st
      \<and> (client ?st \<or> (DialOk (sftp ?nenv) \<and> NewClientOk (sftp ?nenv)))
      \<and> OpenOk (sftp ?nenv) \<and> StatSize (sftp ?nenv) = Some 0 \<and> 0 <s lastOffset ?st
      \<and> (0 :: int64) = 0"
    by (simp add: NewSftpTailer_def sftp_serving_def word_sless_alt)
  have sp: "stateFilePath ?st \<noteq> [] \<and> \<not> writeFails (disk ?ss) (stateFilePath ?st)"
    by (simp add: NewSftpTailer_def single_file_def)
  have pa: "stateFilePath ?ht = ''ckpt''" "stateFilePath ?st = ''ckpt''"
    by (simp_all add: NewHttpTailer_def NewSftpTailer_def)
  from truncation_resets_offset
         [where s = ?hs and t = ?ht and nenv = ?nenv
            and resp = "\<lparr>StatusCode = 416, Body = Some []\<rparr>"]
       truncation_resets_offset [where s = ?ss and st = ?st and nenv = ?nenv and sz = 0]
       h hp s sp
  have "stdout (main_cycle ?nenv ?hs) = stdout ?hs
      \<and> files (disk (main_cycle ?nenv ?hs)) (stateFilePath ?ht) = Some ''0\<newline>''
      \<and> files (disk (main_cycle ?nenv ?ss)) (stateFilePath ?st) = Some ''0\<newline>''"
    by blast
  moreover have s2: "tailer ?ss = SftpT ?st
      \<and> (client ?st \<or> (DialOk (sftp ?nenv2) \<and> NewClientOk (sftp ?nenv2)))
      \<and> OpenOk (sftp ?nenv2) \<and> StatSize (sftp ?nenv2) = Some 3 \<and> 3 <s lastOffset ?st
      \<and> (3 :: int64) \<noteq> 0 \<and> SeekOk (sftp ?nenv2) 0
      \<and> ReadAll (sftp ?nenv2) 0 = Some ''ab\<newline>''"
    by (simp add: NewSftpTailer_def sftp_serving_def word_sless_alt)
  have ex: "snd (extract_loop ''ab\<newline>'' [] 0) = 3"
    by (simp add: extract_loop.simps nlByte_def)
  from truncation_resets_offset
         [where s = ?ss and st = ?st and nenv = ?nenv2 and sz = 3 and body = "''ab\<newline>''"] s2
  have "offset_of (tailer (main_cycle ?nenv2 ?ss)) = snd (extract_loop ''ab\<newline>'' [] 0)"
    by blast
  then have "offset_of (tailer (main_cycle ?nenv2 ?ss)) = 3"
    by (simp only: ex)
  ultimately show ?thesis
    by (simp only: pa) simp
qed


text \<open>
  C1 as stated fails for the SFTP reader: with offset 10 and a file that has shrunk to
  the 3 bytes \<open>ab\<close>, newline, the poll prints the line \<open>ab\<close> and the checkpoint
  written is 3.
\<close>

theorem sftp_truncation_reads_from_start:
  "StatSize (sftp_serving ''ab\<newline>'') = Some 3
   \<and> 3 <s lastOffset ((NewSftpTailer ''h'' ''u'' ''p'' ''f'' 5 ''ckpt'')\<lparr>lastOffset := 10\<rparr>)
   \<and> stdout (main_cycle \<lparr>http = http_serving [], sftp = sftp_serving ''ab\<newline>''\<rparr>
            \<lparr>tailer = SftpT ((NewSftpTailer ''h'' ''u'' ''p'' ''f'' 5 ''ckpt'')\<lparr>lastOffset := 10\<rparr>),
             disk = single_file ''ckpt'' ''10\<newline>'', stdout = [], stderr = []\<rparr>)
       = [''ab'']
   \<and> files (disk (main_cycle \<lparr>http = http_serving [], sftp = sftp_serving ''ab\<newline>''\<rparr>
            \<lparr>tailer = SftpT ((NewSftpTailer ''h'' ''u'' ''p'' ''f'' 5 ''ckpt'')\<lparr>lastOffset := 10\<rparr>),
             disk = single_file ''ckpt'' ''10\<newline>'', stdout = [], stderr = []\<rparr>)) ''ckpt''
       = Some ''3\<newline>''"
  by (simp add: main_cycle_def SftpFetchNewLines_def SaveState_def WriteFile_def connect_def
        NewSftpTailer_def sftp_serving_def single_file_def word_sless_alt extract_loop.simps
        nlByte_def Sprintf_d_def decimal.simps digit_char_def)


text \<open>
  C6 (as amended). When the command line is accepted and a reader is created, a failure
  of \<open>LoadState\<close> at start-up does not abort the process: it writes the failure to
  standard error and enters the loop with the reader as created, offset 0. In the loop,
  a poll that returns an error, wherever it comes in the run, does not end the process
  either: the error is written to standard error, the state is kept with the reader as
  the failed call left it, and the polls that follow are carried out from that state.
\<close>

theorem load_failure_does_not_abort:
  "(flagParse cfg = FlagsParsed \<and> NArg cfg = 1 \<and> CreateTailerFromArgs cfg = Inr T
      \<and> fst (TailerLoadState fs0 T) \<noteq> None
    \<longrightarrow> offset_of T = 0
        \<and> main_start cfg fs0
          = Running \<lparr>tailer = T, disk = fs0, stdout = [], stderr = [MsgFailedToLoadState]\<rparr>
        \<and> main cfg fs0 envs
          = Running (main_loop envs
              \<lparr>tailer = T, disk = fs0, stdout = [], stderr = [MsgFailedToLoadState]\<rparr>))
   \<and> (main_start cfg fs0 = Running s
      \<and> FetchNewLines env (tailer (main_loop envs1 s)) = (Inl e, d, T')
    \<longrightarrow> main cfg fs0 (envs1 @ env # envs2)
          = Running (main_loop envs2
              ((main_loop envs1 s)
                 \<lparr>tailer := T',
                  stderr := stderr (main_loop envs1 s) @ d @ [MsgErrorFetchingFile]\<rparr>)))"
proof -
  have load: "offset_of T = 0
        \<and> main_start cfg fs0
          = Running \<lparr>tailer = T, disk = fs0, stdout = [], stderr = [MsgFailedToLoadState]\<rparr>
        \<and> main cfg fs0 envs
          = Running (main_loop envs
              \<lparr>tailer = T, disk = fs0, stdout = [], stderr = [MsgFailedToLoadState]\<rparr>)"
    if a: "flagParse cfg = FlagsParsed" "NArg cfg = 1" "CreateTailerFromArgs cfg = Inr T"
      "fst (TailerLoadState fs0 T) \<noteq> None"
  proof -
    obtain e where "TailerLoadState fs0 T = (Some e, T)"
      using TailerLoadState_error [OF a(4)] a(4) by (cases "TailerLoadState fs0 T") auto
    then have st: "main_start cfg fs0
          = Running \<lparr>tailer = T, disk = fs0, stdout = [], stderr = [MsgFailedToLoadState]\<rparr>"
      using a by (simp add: main_start_def)
    then have "main cfg fs0 envs
          = Running (main_loop envs
              \<lparr>tailer = T, disk = fs0, stdout = [], stderr = [MsgFailedToLoadState]\<rparr>)"
      by (simp add: main_def)
    with st CreateTailerFromArgs_offset [OF a(3)] show ?thesis by simp
  qed
  have run: "main cfg fs0 (envs1 @ env # envs2)
          = Running (main_loop envs2
              ((main_loop envs1 s)
                 \<lparr>tailer := T',
                  stderr := stderr (main_loop envs1 s) @ d @ [MsgErrorFetchingFile]\<rparr>))"
    if b: "main_start cfg fs0 = Running s"
      "FetchNewLines env (tailer (main_loop envs1 s)) = (Inl e, d, T')"
  proof -
    have "main_loop (envs1 @ env # envs2) s
          = main_loop envs2 (main_cycle env (main_loop envs1 s))"
      by (simp add: main_loop_append)
    also have "main_cycle env (main_loop envs1 s)
          = (main_loop envs1 s)
              \<lparr>tailer := T',
               stderr := stderr (main_loop envs1 s) @ d @ [MsgErrorFetchingFile]\<rparr>"
      using b(2) by (rule main_cycle_error)
    finally show ?thesis
      using b(1) by (simp add: main_def)
  qed
  from load run show ?thesis by blast
qed

theorem load_failure_does_not_abort_witness:
  "\<exists>s. main (http_config ''ckpt'') (single_file ''ckpt'' ''-5'')
           [\<lparr>http = http_unreachable, sftp = sftp_serving []\<rparr>,
            \<lparr>http = http_serving ''foo\<newline>'', sftp = sftp_serving []\<rparr>]
         = Running s
       \<and> stdout s = [''foo'']
       \<and> stderr s = [MsgFailedToLoadState, MsgErrorFetchingFile]
       \<and> offset_of (tailer s) = 4"
proof -
  let ?cfg = "http_config ''ckpt''"
  let ?fs = "single_file ''ckpt'' ''-5''"
  let ?t = "NewHttpTailer ''http://example.org/log'' 5 ''ckpt''"
  let ?bad = "\<lparr>http = http_unreachable, sftp = sftp_serving []\<rparr>"
  let ?good = "\<lparr>http = http_serving ''foo\<newline>'', sftp = sftp_serving []\<rparr>"
  let ?s0 = "\<lparr>tailer = HttpT ?t, disk = ?fs, stdout = [], stderr = [MsgFailedToLoadState]\<rparr>"
  let ?s1 = "(main_loop [] ?s0)\<lparr>tailer := HttpT ?t,
               stderr := stderr (main_loop [] ?s0) @ [] @ [MsgErrorFetchingFile]\<rparr>"
  have h: "flagParse ?cfg = FlagsParsed \<and> NArg ?cfg = 1
      \<and> CreateTailerFromArgs ?cfg = Inr (HttpT ?t)
      \<and> fst (TailerLoadState ?fs (HttpT ?t)) \<noteq> None"
    by (simp add: http_config_def CreateTailerFromArgs_def LoadState_def ReadFile_def
          single_file_def NewHttpTailer_def scan_defs word_sless_alt)
  from load_failure_does_not_abort [where cfg = ?cfg and T = "HttpT ?t" and ?fs0.0 = ?fs] h
  have st: "main_start ?cfg ?fs = Running ?s0"
    by blast
  have f: "FetchNewLines ?bad (tailer (main_loop [] ?s0)) = (Inl ClientDoError, [], HttpT ?t)"
    by (simp add: HttpFetchNewLines_def http_unreachable_def)
  from load_failure_does_not_abort
         [where cfg = ?cfg and ?fs0.0 = ?fs and s = ?s0 and env = ?bad and ?envs1.0 = "[]"
            and e = ClientDoError and d = "[]" and T' = "HttpT ?t" and ?envs2.0 = "[?good]"]
       st f
  have run: "main ?cfg ?fs ([] @ ?bad # [?good]) = Running (main_loop [?good] ?s1)"
    by blast
  have ev: "stdout (main_loop [?good] ?s1) = [''foo'']
      \<and> stderr (main_loop [?good] ?s1) = [MsgFailedToLoadState, MsgErrorFetchingFile]
      \<and> offset_of (tailer (main_loop [?good] ?s1)) = 4"
    by (simp add: main_cycle_def HttpFetchNewLines_def http_serving_def NewHttpTailer_def
          SaveState_def WriteFile_def single_file_def word_sless_alt extract_loop.simps
          nlByte_def)
  from run ev show ?thesis by simp
qed

text \<open>
  C6 as stated fails: started on a checkpoint file containing \<open>-5\<close>, \<open>LoadState\<close>
  returns the invalid-offset error and the program runs on.
\<close>

theorem invalid_checkpoint_at_start_keeps_running:
  "LoadState (single_file ''ckpt'' ''-5'') (NewHttpTailer ''http://example.org/log'' 5 ''ckpt'')
     = (Some (InvalidOffset (-5)), NewHttpTailer ''http://example.org/log'' 5 ''ckpt'')
   \<and> main_start (http_config ''ckpt'') (single_file ''ckpt'' ''-5'')
     = Running \<lparr>tailer = HttpT (NewHttpTailer ''http://example.org/log'' 5 ''ckpt''),
                disk = single_file ''ckpt'' ''-5'', stdout = [],
                stderr = [MsgFailedToLoadState]\<rparr>"
  by (simp add: main_start_def http_config_def CreateTailerFromArgs_def LoadState_def
        ReadFile_def single_file_def NewHttpTailer_def scan_defs word_sless_alt)


text \<open>
  C9 (as amended). The offset is 0 in a reader just created and non-negative when the
  loop is entered; \<open>LoadState\<close> keeps a non-negative offset non-negative;
  \<open>FetchNewLines\<close>, truncation resets included, and the cycle of the controller around
  it (\<open>SaveState\<close> does not touch the reader) keep it non-negative provided the offset
  plus the length of any body the poll may read stays below \<open>2^63\<close>.
\<close>

theorem offset_nonneg_unless_overflow:
  "(\<forall>s. main_start cfg fs0 = Running s \<longrightarrow> 0 \<le>s offset_of (tailer s))
   \<and> (0 \<le>s lastOffset t \<longrightarrow> 0 \<le>s lastOffset (snd (LoadState fs0 t)))
   \<and> (0 \<le>s offset_of (tailer s)
       \<and> (\<forall>req resp body. Do (http nenv) req = Some resp \<and> Body resp = Some body
             \<longrightarrow> sint (offset_of (tailer s)) + int (length body) < 2 ^ 63)
       \<and> (\<forall>pos body. ReadAll (sftp nenv) pos = Some body
             \<longrightarrow> sint (offset_of (tailer s)) + int (length body) < 2 ^ 63)
      \<longrightarrow> 0 \<le>s offset_of (snd (snd (FetchNewLines nenv (tailer s))))
          \<and> 0 \<le>s offset_of (tailer (main_cycle nenv s)))"
  using main_start_nonneg [of cfg fs0] LoadState_nonneg [of t fs0]
    fetch_nonneg [of "tailer s" nenv] main_cycle_tailer [of nenv s]
  by auto


theorem offset_nonneg_unless_overflow_witness:
  "0 \<le>s offset_of (tailer (main_cycle
       \<lparr>http = http_answering 200 ''foo\<newline>bar\<newline>'', sftp = sftp_serving []\<rparr>
       \<lparr>tailer = HttpT ((NewHttpTailer ''u'' 5 ''ckpt'')\<lparr>lastOffset := 4\<rparr>),
        disk = single_file ''ckpt'' ''4\<newline>'', stdout = [], stderr = []\<rparr>))
   \<and> 0 \<le>s lastOffset (snd (LoadState (single_file ''ckpt'' ''4\<newline>'')
                                ((NewHttpTailer ''u'' 5 ''ckpt'')\<lparr>lastOffset := 4\<rparr>)))"
proof -
  let ?nenv = "\<lparr>http = http_answering 200 ''foo\<newline>bar\<newline>'', sftp = sftp_serving []\<rparr>"
  let ?t = "(NewHttpTailer ''u'' 5 ''ckpt'')\<lparr>lastOffset := 4\<rparr>"
  let ?s = "\<lparr>tailer = HttpT ?t, disk = single_file ''ckpt'' ''4\<newline>'',
             stdout = [], stderr = []\<rparr>"
  have h0: "0 \<le>s lastOffset ?t"
    by (simp add: NewHttpTailer_def word_sle_eq)
  have h1: "0 \<le>s offset_of (tailer ?s)"
    by (simp add: NewHttpTailer_def word_sle_eq)
  have h2: "\<forall>req resp body. Do (http ?nenv) req = Some resp \<and> Body resp = Some body
      \<longrightarrow> sint (offset_of (tailer ?s)) + int (length body) < 2 ^ 63"
    by (auto simp: http_answering_def NewHttpTailer_def)
  have h3: "\<forall>pos body. ReadAll (sftp ?nenv) pos = Some body
      \<longrightarrow> sint (offset_of (tailer ?s)) + int (length body) < 2 ^ 63"
    by (auto simp: sftp_serving_def NewHttpTailer_def)
  from offset_nonneg_unless_overflow
         [where t = ?t and s = ?s and nenv = ?nenv
            and ?fs0.0 = "single_file ''ckpt'' ''4\<newline>''"] h0 h1 h2 h3
  show ?thesis by blast
qed

text \<open>
  C9 as stated fails by wrap-around: the checkpoint \<open>9223372036854775807\<close> is loaded as
  a valid offset, and after a 206 response whose body holds one newline past the overlap
  byte the addition wraps and the offset is negative.
\<close>

theorem offset_wraps_negative:
  "LoadState (single_file ''ckpt'' ''9223372036854775807'') (NewHttpTailer ''u'' 5 ''ckpt'')
     = (None, (NewHttpTailer ''u'' 5 ''ckpt'')\<lparr>lastOffset := 9223372036854775807\<rparr>)
   \<and> 0 \<le>s (9223372036854775807 :: int64)
   \<and> lastOffset (snd (snd (HttpFetchNewLines (http_answering 206 ''a\<newline>'')
        ((NewHttpTailer ''u'' 5 ''ckpt'')\<lparr>lastOffset := 9223372036854775807\<rparr>)))) <s 0"
  by (simp add: LoadState_def ReadFile_def single_file_def NewHttpTailer_def scan_defs
        HttpFetchNewLines_def http_answering_def extract_loop.simps nlByte_def
        word_sless_alt word_sle_eq)


text \<open>
  C4 (as amended). For a non-negative offset and a non-empty checkpoint path on which
  writing and reading succeed, \<open>SaveState\<close> writes the offset in decimal followed by a
  newline, and \<open>LoadState\<close> on the same path afterwards, in any reader, sets exactly that
  offset. With the empty path \<open>SaveState\<close> writes nothing and \<open>LoadState\<close> sets 0.
  \<open>LoadState\<close> on a path that does not exist sets 0 and returns no error, and on a file
  containing \<open>-5\<close> it returns the invalid-offset error.
\<close>

theorem checkpoint_round_trip:
  "(0 \<le>s lastOffset t \<and> stateFilePath t \<noteq> []
      \<and> \<not> writeFails fs0 (stateFilePath t) \<and> \<not> readFails fs0 (stateFilePath t)
      \<and> stateFilePath t' = stateFilePath t
    \<longrightarrow> fst (SaveState fs0 t) = None
        \<and> files (snd (SaveState fs0 t)) (stateFilePath t)
            = Some (Sprintf_d (lastOffset t) @ nlByte)
        \<and> LoadState (snd (SaveState fs0 t)) t' = (None, t'\<lparr>lastOffset := lastOffset t\<rparr>))
   \<and> (stateFilePath t = []
    \<longrightarrow> SaveState fs0 t = (None, fs0) \<and> LoadState fs0 t = (None, t\<lparr>lastOffset := 0\<rparr>))
   \<and> (stateFilePath t \<noteq> [] \<and> ReadFile fs0 (stateFilePath t) = Inl ErrNotExist
    \<longrightarrow> LoadState fs0 t = (None, t\<lparr>lastOffset := 0\<rparr>))
   \<and> (stateFilePath t \<noteq> [] \<and> ReadFile fs0 (stateFilePath t) = Inr ''-5''
    \<longrightarrow> LoadState fs0 t = (Some (InvalidOffset (- 5)), t))"
proof -
  have rt: "fst (SaveState fs0 t) = None
        \<and> files (snd (SaveState fs0 t)) (stateFilePath t)
            = Some (Sprintf_d (lastOffset t) @ nlByte)
        \<and> LoadState (snd (SaveState fs0 t)) t' = (None, t'\<lparr>lastOffset := lastOffset t\<rparr>)"
    if "0 \<le>s lastOffset t" "stateFilePath t \<noteq> []" "\<not> writeFails fs0 (stateFilePath t)"
      "\<not> readFails fs0 (stateFilePath t)" "stateFilePath t' = stateFilePath t"
    using save_then_load [OF that] by simp
  have empty: "SaveState fs0 t = (None, fs0) \<and> LoadState fs0 t = (None, t\<lparr>lastOffset := 0\<rparr>)"
    if "stateFilePath t = []"
    using that by (simp add: SaveState_def LoadState_def)
  have missing: "LoadState fs0 t = (None, t\<lparr>lastOffset := 0\<rparr>)"
    if "stateFilePath t \<noteq> []" "ReadFile fs0 (stateFilePath t) = Inl ErrNotExist"
    using that by (simp add: LoadState_def)
  have sc: "Sscanf_d ''-5'' = (1, None, - 5)"
    by (simp add: scan_defs)
  have neg: "LoadState fs0 t = (Some (InvalidOffset (- 5)), t)"
    if "stateFilePath t \<noteq> []" "ReadFile fs0 (stateFilePath t) = Inr ''-5''"
    using that sc by (simp add: LoadState_def word_sless_alt)
  from rt empty missing neg show ?thesis by blast
qed


theorem checkpoint_round_trip_witness:
  "files (snd (SaveState (single_file ''ckpt'' [])
                 ((NewHttpTailer ''u'' 5 ''ckpt'')\<lparr>lastOffset := 1234\<rparr>))) ''ckpt''
     = Some ''1234\<newline>''
   \<and> LoadState (snd (SaveState (single_file ''ckpt'' [])
                       ((NewHttpTailer ''u'' 5 ''ckpt'')\<lparr>lastOffset := 1234\<rparr>)))
        (NewHttpTailer ''u'' 5 ''ckpt'')
     = (None, (NewHttpTailer ''u'' 5 ''ckpt'')\<lparr>lastOffset := 1234\<rparr>)
   \<and> LoadState (single_file ''other'' []) (NewHttpTailer ''u'' 5 ''ckpt'')
     = (None, (NewHttpTailer ''u'' 5 ''ckpt'')\<lparr>lastOffset := 0\<rparr>)
   \<and> LoadState (single_file ''ckpt'' ''-5'') (NewHttpTailer ''u'' 5 ''ckpt'')
     = (Some (InvalidOffset (- 5)), NewHttpTailer ''u'' 5 ''ckpt'')"
proof -
  let ?t = "(NewHttpTailer ''u'' 5 ''ckpt'')\<lparr>lastOffset := 1234\<rparr>"
  let ?t' = "NewHttpTailer ''u'' 5 ''ckpt''"
  have h1: "0 \<le>s lastOffset ?t \<and> stateFilePath ?t \<noteq> []
      \<and> \<not> writeFails (single_file ''ckpt'' []) (stateFilePath ?t)
      \<and> \<not> readFails (single_file ''ckpt'' []) (stateFilePath ?t)
      \<and> stateFilePath ?t' = stateFilePath ?t"
    by (simp add: NewHttpTailer_def single_file_def word_sle_eq)
  have h2: "stateFilePath ?t' \<noteq> []
      \<and> ReadFile (single_file ''other'' []) (stateFilePath ?t') = Inl ErrNotExist"
    by (simp add: NewHttpTailer_def single_file_def ReadFile_def)
  have h3: "stateFilePath ?t' \<noteq> []
      \<and> ReadFile (single_file ''ckpt'' ''-5'') (stateFilePath ?t') = Inr ''-5''"
    by (simp add: NewHttpTailer_def single_file_def ReadFile_def)
  have e: "stateFilePath ?t = ''ckpt''" "lastOffset ?t = 1234"
      "Sprintf_d 1234 @ nlByte = ''1234\<newline>''"
    by (simp_all add: NewHttpTailer_def Sprintf_d_def decimal.simps digit_char_def nlByte_def)
  from checkpoint_round_trip [where t = ?t and t' = ?t' and ?fs0.0 = "single_file ''ckpt'' []"]
       checkpoint_round_trip [where t = ?t' and ?fs0.0 = "single_file ''other'' []"]
       checkpoint_round_trip [where t = ?t' and ?fs0.0 = "single_file ''ckpt'' ''-5''"]
       h1 h2 h3
  have "files (snd (SaveState (single_file ''ckpt'' []) ?t)) (stateFilePath ?t)
          = Some (Sprintf_d (lastOffset ?t) @ nlByte)
      \<and> LoadState (snd (SaveState (single_file ''ckpt'' []) ?t)) ?t'
          = (None, ?t'\<lparr>lastOffset := lastOffset ?t\<rparr>)
      \<and> LoadState (single_file ''other'' []) ?t' = (None, ?t'\<lparr>lastOffset := 0\<rparr>)
      \<and> LoadState (single_file ''ckpt'' ''-5'') ?t' = (Some (InvalidOffset (- 5)), ?t')"
    by blast
  then show ?thesis
    by (simp only: e)
qed

text \<open>
  C4 as stated fails for the empty path, which is the default: \<open>SaveState\<close> writes
  nothing, and \<open>LoadState\<close> afterwards sets the offset 5 to 0.
\<close>

theorem empty_path_does_not_round_trip:
  "0 \<le>s lastOffset ((NewHttpTailer ''u'' 5 [])\<lparr>lastOffset := 5\<rparr>)
   \<and> lastOffset ((NewHttpTailer ''u'' 5 [])\<lparr>lastOffset := 5\<rparr>) = 5
   \<and> fst (SaveState (single_file [] []) ((NewHttpTailer ''u'' 5 [])\<lparr>lastOffset := 5\<rparr>)) = None
   \<and> LoadState (snd (SaveState (single_file [] []) ((NewHttpTailer ''u'' 5 [])\<lparr>lastOffset := 5\<rparr>)))
        ((NewHttpTailer ''u'' 5 [])\<lparr>lastOffset := 5\<rparr>)
      = (None, (NewHttpTailer ''u'' 5 [])\<lparr>lastOffset := 0\<rparr>)"
  by (simp add: SaveState_def LoadState_def NewHttpTailer_def word_sle_eq)


text \<open>
  C7 (as amended). On a checkpoint file that can be read, \<open>LoadState\<close> returns an error
  and leaves the reader as it was, unless the content (its first \<open>2^30\<close> runes) has the
  shape \<open>integer_prefix\<close>: spaces other than newline, an optional sign, decimal digits
  denoting a non-negative number below \<open>2^63\<close>, then anything that does not begin with a
  digit; in that case the number is the offset. In particular what follows the integer is
  not examined: the decimal form of any such number, followed by any bytes whose first
  rune is not a digit, loads as that number.
\<close>

theorem LoadState_rejects_all_but_integer_prefix:
  "(stateFilePath t \<noteq> [] \<and> ReadFile fs0 (stateFilePath t) = Inr data
    \<longrightarrow> (fst (LoadState fs0 t) \<noteq> None \<and> snd (LoadState fs0 t) = t)
        \<or> (\<exists>n. integer_prefix (take hugeWid (runes data)) n
              \<and> LoadState fs0 t = (None, t\<lparr>lastOffset := word_of_nat n\<rparr>)))
   \<and> (n < 2 ^ 63
      \<and> (runes rest = [] \<or> \<not> is_digit (hd (runes rest)))
      \<and> stateFilePath t \<noteq> [] \<and> ReadFile fs0 (stateFilePath t) = Inr (decimal n @ rest)
    \<longrightarrow> LoadState fs0 t = (None, t\<lparr>lastOffset := word_of_nat n\<rparr>))"
proof -
  have a: "(fst (LoadState fs0 t) \<noteq> None \<and> snd (LoadState fs0 t) = t)
        \<or> (\<exists>n. integer_prefix (take hugeWid (runes data)) n
              \<and> LoadState fs0 t = (None, t\<lparr>lastOffset := word_of_nat n\<rparr>))"
    if p: "stateFilePath t \<noteq> []" "ReadFile fs0 (stateFilePath t) = Inr data"
  proof (cases "fst (LoadState fs0 t) = None")
    case False
    then have "snd (LoadState fs0 t) = t"
      by (auto simp: LoadState_def Let_def
          split: sum.splits prod.splits option.splits if_splits)
    with False show ?thesis by simp
  next
    case True
    then have "LoadState fs0 t = (None, snd (LoadState fs0 t))"
      by (metis prod.collapse)
    from LoadState_accepts [OF this p] obtain sp sg ds rest where
        s: "take hugeWid (runes data) = sp @ sg @ ds @ rest"
        "\<forall>r \<in> set sp. isSpace r \<and> r \<noteq> 10"
        "sg = [] \<or> sg = [43] \<or> (sg = [45] \<and> decimal_value ds = 0)"
        "ds \<noteq> []" "\<forall>d \<in> set ds. is_digit d"
        "rest = [] \<or> \<not> is_digit (hd rest)"
        "decimal_value ds < 2 ^ 63"
        and t': "snd (LoadState fs0 t) = t\<lparr>lastOffset := word_of_nat (decimal_value ds)\<rparr>"
      by blast
    have "integer_prefix (take hugeWid (runes data)) (decimal_value ds)"
      unfolding integer_prefix_def
      using s by (intro exI [of _ sp] exI [of _ sg] exI [of _ ds] exI [of _ rest]) simp
    moreover have "LoadState fs0 t = (None, t\<lparr>lastOffset := word_of_nat (decimal_value ds)\<rparr>)"
      using \<open>LoadState fs0 t = (None, snd (LoadState fs0 t))\<close> t' by simp
    ultimately have "\<exists>n. integer_prefix (take hugeWid (runes data)) n
              \<and> LoadState fs0 t = (None, t\<lparr>lastOffset := word_of_nat n\<rparr>)"
      by blast
    then show ?thesis by simp
  qed
  have b: "LoadState fs0 t = (None, t\<lparr>lastOffset := word_of_nat n\<rparr>)"
    if "n < 2 ^ 63"
      "runes rest = [] \<or> \<not> is_digit (hd (runes rest))"
      "stateFilePath t \<noteq> []" "ReadFile fs0 (stateFilePath t) = Inr (decimal n @ rest)"
    using that by (rule LoadState_decimal)
  from a b show ?thesis by blast
qed


theorem LoadState_rejects_all_but_integer_prefix_witness:
  "LoadState (single_file ''ckpt'' ''-5'') (NewHttpTailer ''u'' 5 ''ckpt'')
     = (Some (InvalidOffset (- 5)), NewHttpTailer ''u'' 5 ''ckpt'')
   \<and> LoadState (single_file ''ckpt'' ''70; rest'') (NewHttpTailer ''u'' 5 ''ckpt'')
     = (None, (NewHttpTailer ''u'' 5 ''ckpt'')\<lparr>lastOffset := 70\<rparr>)
   \<and> (\<exists>n. integer_prefix (take hugeWid (runes ''70; rest'')) n)"
proof -
  let ?t = "NewHttpTailer ''u'' 5 ''ckpt''"
  have d: "decimal 70 = ''70''"
    by (simp add: decimal.simps digit_char_def)
  have h1: "stateFilePath ?t \<noteq> []
      \<and> ReadFile (single_file ''ckpt'' ''70; rest'') (stateFilePath ?t) = Inr ''70; rest''"
    by (simp add: NewHttpTailer_def single_file_def ReadFile_def)
  have h2: "(70 :: nat) < 2 ^ 63
      \<and> (runes ''; rest'' = [] \<or> \<not> is_digit (hd (runes ''; rest'')))
      \<and> stateFilePath ?t \<noteq> []
      \<and> ReadFile (single_file ''ckpt'' ''70; rest'') (stateFilePath ?t)
          = Inr (decimal 70 @ ''; rest'')"
    by (simp add: d NewHttpTailer_def single_file_def ReadFile_def runes_def is_digit_def)
  have neg: "LoadState (single_file ''ckpt'' ''-5'') ?t = (Some (InvalidOffset (- 5)), ?t)"
    by (simp add: LoadState_def ReadFile_def single_file_def NewHttpTailer_def scan_defs
          word_sless_alt)
  from LoadState_rejects_all_but_integer_prefix
         [where t = ?t and ?fs0.0 = "single_file ''ckpt'' ''70; rest''"
            and data = "''70; rest''" and n = 70 and rest = "''; rest''"] h1 h2
  have acc: "LoadState (single_file ''ckpt'' ''70; rest'') ?t
             = (None, ?t\<lparr>lastOffset := word_of_nat 70\<rparr>)"
    and shape: "(fst (LoadState (single_file ''ckpt'' ''70; rest'') ?t) \<noteq> None
                  \<and> snd (LoadState (single_file ''ckpt'' ''70; rest'') ?t) = ?t)
        \<or> (\<exists>n. integer_prefix (take hugeWid (runes ''70; rest'')) n
              \<and> LoadState (single_file ''ckpt'' ''70; rest'') ?t
                  = (None, ?t\<lparr>lastOffset := word_of_nat n\<rparr>))"
    by blast+
  from acc shape have "\<exists>n. integer_prefix (take hugeWid (runes ''70; rest'')) n"
    by auto
  with acc neg show ?thesis by simp
qed

text \<open>
  C7 as stated fails on trailing bytes: the content \<open>123abc\<close> is loaded as offset 123
  with no error, and the content \<open>1_000\<close>, where the scan stops at the underscore, as
  offset 1.
\<close>

theorem trailing_bytes_accepted:
  "LoadState (single_file ''ckpt'' ''123abc'') (NewHttpTailer ''u'' 5 ''ckpt'')
     = (None, (NewHttpTailer ''u'' 5 ''ckpt'')\<lparr>lastOffset := 123\<rparr>)
   \<and> LoadState (single_file ''ckpt'' ''1_000'') (NewHttpTailer ''u'' 5 ''ckpt'')
     = (None, (NewHttpTailer ''u'' 5 ''ckpt'')\<lparr>lastOffset := 1\<rparr>)"
  by (simp add: LoadState_def ReadFile_def single_file_def NewHttpTailer_def scan_defs
        word_sless_alt)

end
